theory Spec2Isabelle
  imports Complex_Main "HOL-Library.Word"
begin

unbundle bit_operations_syntax

chapter \<open>Claude Code Context Syncer: a shallow embedding of the sync engine\<close>

text \<open>
  The development follows the TypeScript sources: the path codec and the filename
  sanitizer of the utilities module, and the syncer class (staleness check, log parser,
  metadata builder, per-file sync, debounced scheduling). JavaScript library functions
  that the sources call (string methods, \<^verbatim>\<open>decodeURIComponent\<close>, the POSIX flavour of
  \<^verbatim>\<open>path\<close>, UTF-8 file reads and writes, \<^verbatim>\<open>readline\<close>) are modelled as the
  ECMAScript and Node.js documentation describes them; \<^verbatim>\<open>JSON.parse\<close> and
  \<^verbatim>\<open>JSON.stringify\<close> are parameters of the model.
\<close>

section \<open>JavaScript strings\<close>

text \<open>
  A JavaScript string is a sequence of 16-bit code units; \<^verbatim>\<open>length\<close>,
  \<^verbatim>\<open>substring\<close> and the regular expressions of the sources (none has the
  \<^verbatim>\<open>u\<close> flag) all work on code units. \<open>js\<close> turns an ASCII literal into such
  a string.
\<close>

type_synonym jschar = "16 word"
type_synonym jsstring = "jschar list"
type_synonym byte = "8 word"

definition js :: "string \<Rightarrow> jsstring" where
  "js s = map (\<lambda>c. of_char c) s"

text \<open>
  The characters matched by \<^verbatim>\<open>\s\<close> and stripped by \<^verbatim>\<open>trim\<close>: ECMAScript's
  WhiteSpace and LineTerminator productions.
\<close>

definition isWhiteSpace :: "jschar \<Rightarrow> bool" where
  "isWhiteSpace c \<longleftrightarrow>
     c \<in> {0x09, 0x0A, 0x0B, 0x0C, 0x0D, 0x20, 0xA0, 0x1680, 0x2028, 0x2029,
          0x202F, 0x205F, 0x3000, 0xFEFF}
     \<or> (0x2000 \<le> c \<and> c \<le> 0x200A)"

text \<open>
  \<^verbatim>\<open>s.replace(/[...]+/g, r)\<close>: every maximal run of characters of the class \<open>P\<close>
  is replaced by \<open>r\<close>. The flag says whether the previous character belonged to a run.
\<close>

fun replaceRuns :: "(jschar \<Rightarrow> bool) \<Rightarrow> jsstring \<Rightarrow> bool \<Rightarrow> jsstring \<Rightarrow> jsstring" where
  "replaceRuns P r inRun [] = []"
| "replaceRuns P r inRun (c # cs) =
     (if P c then (if inRun then replaceRuns P r True cs else r @ replaceRuns P r True cs)
      else c # replaceRuns P r False cs)"

definition trimStart :: "jsstring \<Rightarrow> jsstring" where
  "trimStart s = dropWhile isWhiteSpace s"

definition trimEnd :: "jsstring \<Rightarrow> jsstring" where
  "trimEnd s = rev (dropWhile isWhiteSpace (rev s))"

definition trim :: "jsstring \<Rightarrow> jsstring" where
  "trim s = trimEnd (trimStart s)"

section \<open>The filename sanitizer\<close>

text \<open>
  \<^verbatim>\<open>name.replace(/[<>:"|?*]/g, '-').replace(/\s+/g, ' ').trim().substring(0, 255)\<close>
\<close>

definition isInvalidFileChar :: "jschar \<Rightarrow> bool" where
  "isInvalidFileChar c \<longleftrightarrow> c \<in> set (js ''<>:\"|?*'')"

definition replaceInvalid :: "jsstring \<Rightarrow> jsstring" where
  "replaceInvalid name = map (\<lambda>c. if isInvalidFileChar c then of_char CHR ''-'' else c) name"

definition collapseWhitespace :: "jsstring \<Rightarrow> jsstring" where
  "collapseWhitespace s = replaceRuns isWhiteSpace (js '' '') False s"

definition sanitizeFileName :: "jsstring \<Rightarrow> jsstring" where
  "sanitizeFileName name = take 255 (trim (collapseWhitespace (replaceInvalid name)))"

text \<open>
  Whitespace in normal form: every whitespace character is a single U+0020 that does not
  follow another one (\<open>b\<close>: the previous character was whitespace).
\<close>

fun wsNorm :: "bool \<Rightarrow> jsstring \<Rightarrow> bool" where
  "wsNorm b [] = True"
| "wsNorm b (c # cs) =
     (if isWhiteSpace c then c = 0x20 \<and> \<not> b \<and> wsNorm True cs else wsNorm False cs)"

section \<open>UTF-8 and UTF-16\<close>

text \<open>
  Lead byte of a well-formed UTF-8 sequence (Unicode, table 3-7): the number of
  continuation bytes, the bounds of the first continuation byte, and the payload of the
  lead byte. Every other byte of \<open>0x80..0xFF\<close> cannot start a sequence.
\<close>

definition utf8_lead :: "byte \<Rightarrow> (nat \<times> byte \<times> byte \<times> nat) option" where
  "utf8_lead b =
     (if 0xC2 \<le> b \<and> b \<le> 0xDF then Some (1, 0x80, 0xBF, unat b - 0xC0)
      else if 0xE0 \<le> b \<and> b \<le> 0xEF then
        Some (2, if b = 0xE0 then 0xA0 else 0x80, if b = 0xED then 0x9F else 0xBF, unat b - 0xE0)
      else if 0xF0 \<le> b \<and> b \<le> 0xF4 then
        Some (3, if b = 0xF0 then 0x90 else 0x80, if b = 0xF4 then 0x8F else 0xBF, unat b - 0xF0)
      else None)"

text \<open>A code point as UTF-16 code units: itself, or a surrogate pair.\<close>

definition utf16_encode :: "nat \<Rightarrow> jsstring" where
  "utf16_encode cp =
     (if cp < 0x10000 then [of_nat cp]
      else [of_nat (0xD800 + (cp - 0x10000) div 0x400),
            of_nat (0xDC00 + (cp - 0x10000) mod 0x400)])"

text \<open>
  Reading a file or stream as \<^verbatim>\<open>'utf-8'\<close> text: the decoder of Node's
  \<^verbatim>\<open>Buffer.toString\<close>, which replaces every ill-formed byte sequence by U+FFFD
  and keeps a byte order mark. The state is the number of continuation bytes still
  needed, the code point read so far and the bounds of the next continuation byte.
\<close>

fun utf8_decode_from :: "nat \<Rightarrow> nat \<Rightarrow> byte \<Rightarrow> byte \<Rightarrow> byte list \<Rightarrow> jsstring" where
  "utf8_decode_from n cp lo hi [] = (if n = 0 then [] else [0xFFFD])"
| "utf8_decode_from n cp lo hi (b # bs) =
     (if n = 0 then
        (if b < 0x80 then ucast b # utf8_decode_from 0 0 0x80 0xBF bs
         else
           (case utf8_lead b of
              None \<Rightarrow> 0xFFFD # utf8_decode_from 0 0 0x80 0xBF bs
            | Some (k, lo', hi', cp0) \<Rightarrow> utf8_decode_from k cp0 lo' hi' bs))
      else if lo \<le> b \<and> b \<le> hi then
        (if n = 1 then utf16_encode (cp * 64 + (unat b - 0x80)) @ utf8_decode_from 0 0 0x80 0xBF bs
         else utf8_decode_from (n - 1) (cp * 64 + (unat b - 0x80)) 0x80 0xBF bs)
      else 0xFFFD # utf8_decode_from 0 0 0x80 0xBF (b # bs))"

definition utf8_decode :: "byte list \<Rightarrow> jsstring" where
  "utf8_decode bs = utf8_decode_from 0 0 0x80 0xBF bs"

text \<open>The UTF-8 bytes of a code point.\<close>

definition utf8_bytes :: "nat \<Rightarrow> byte list" where
  "utf8_bytes cp =
     (if cp < 0x80 then [of_nat cp]
      else if cp < 0x800 then [of_nat (0xC0 + cp div 64), of_nat (0x80 + cp mod 64)]
      else if cp < 0x10000 then
        [of_nat (0xE0 + cp div 4096), of_nat (0x80 + cp div 64 mod 64), of_nat (0x80 + cp mod 64)]
      else
        [of_nat (0xF0 + cp div 262144), of_nat (0x80 + cp div 4096 mod 64),
         of_nat (0x80 + cp div 64 mod 64), of_nat (0x80 + cp mod 64)])"

definition isHighSurrogate :: "jschar \<Rightarrow> bool" where
  "isHighSurrogate c \<longleftrightarrow> 0xD800 \<le> c \<and> c \<le> 0xDBFF"

definition isLowSurrogate :: "jschar \<Rightarrow> bool" where
  "isLowSurrogate c \<longleftrightarrow> 0xDC00 \<le> c \<and> c \<le> 0xDFFF"

text \<open>
  Writing a string as \<^verbatim>\<open>'utf-8'\<close>: a surrogate pair is one code point, a lone
  surrogate is written as U+FFFD.
\<close>

fun utf8_encode :: "jsstring \<Rightarrow> byte list" where
  "utf8_encode [] = []"
| "utf8_encode (c # cs) =
     (if isHighSurrogate c then
        (case cs of
           [] \<Rightarrow> utf8_bytes 0xFFFD
         | d # ds \<Rightarrow>
             (if isLowSurrogate d
              then utf8_bytes (0x10000 + (unat c - 0xD800) * 0x400 + (unat d - 0xDC00))
                     @ utf8_encode ds
              else utf8_bytes 0xFFFD @ utf8_encode cs))
      else if isLowSurrogate c then utf8_bytes 0xFFFD @ utf8_encode cs
      else utf8_bytes (unat c) @ utf8_encode cs)"

text \<open>
  Well-formed UTF-8 (Unicode, table 3-7): ASCII bytes, and lead bytes followed by the
  continuation bytes they call for, the first of them within the bounds of the lead byte.
\<close>

definition isContinuation :: "byte \<Rightarrow> bool" where
  "isContinuation c \<longleftrightarrow> 0x80 \<le> c \<and> c \<le> 0xBF"

fun valid_utf8 :: "byte list \<Rightarrow> bool" where
  "valid_utf8 [] = True"
| "valid_utf8 (b # bs) =
     (if b < 0x80 then valid_utf8 bs
      else
        (case utf8_lead b of
           None \<Rightarrow> False
         | Some (n, lo, hi, cp0) \<Rightarrow>
             (case bs of
                [] \<Rightarrow> False
              | c1 # r1 \<Rightarrow>
                  lo \<le> c1 \<and> c1 \<le> hi \<and>
                  (if n = 1 then valid_utf8 r1
                   else
                     (case r1 of
                        [] \<Rightarrow> False
                      | c2 # r2 \<Rightarrow>
                          isContinuation c2 \<and>
                          (if n = 2 then valid_utf8 r2
                           else
                             (case r2 of
                                [] \<Rightarrow> False
                              | c3 # r3 \<Rightarrow> isContinuation c3 \<and> valid_utf8 r3)))))))"

section \<open>Errors\<close>

text \<open>
  What the sources can throw: a \<^verbatim>\<open>URIError\<close> of \<^verbatim>\<open>decodeURIComponent\<close>; a
  \<^verbatim>\<open>TypeError\<close> with its \<^verbatim>\<open>code\<close>, if it has one, and its message (the one of
  \<^verbatim>\<open>path.join\<close> on a value that is not a string has the code
  \<^verbatim>\<open>ERR_INVALID_ARG_TYPE\<close>, the one of reading a property of \<^verbatim>\<open>null\<close> has none);
  a \<^verbatim>\<open>RangeError\<close> with its message (a call with more arguments than the engine
  takes); and the file system errors of Node, which carry a \<^verbatim>\<open>code\<close> that is not
  empty.
\<close>

datatype errcode = EACCES | ENOENT | ENOSPC | ENOTDIR | EISDIR | EEXIST | OtherCode jsstring

datatype js_error =
    URIError
  | TypeError "errcode option" jsstring
  | RangeError jsstring
  | FsError errcode

section \<open>The path codec\<close>

subsection \<open>decodeURIComponent\<close>

definition hexDigit :: "jschar \<Rightarrow> nat option" where
  "hexDigit c =
     (if 0x30 \<le> c \<and> c \<le> 0x39 then Some (unat c - 0x30)
      else if 0x41 \<le> c \<and> c \<le> 0x46 then Some (unat c - 0x41 + 10)
      else if 0x61 \<le> c \<and> c \<le> 0x66 then Some (unat c - 0x61 + 10)
      else None)"

text \<open>
  The string is read as literal code units and escaped octets \<^verbatim>\<open>%XX\<close>; a
  \<^verbatim>\<open>%\<close> that is not followed by two hexadecimal digits is an error.
\<close>

datatype uri_token = Lit jschar | Octet byte

fun percentTokens :: "jsstring \<Rightarrow> uri_token list option" where
  "percentTokens [] = Some []"
| "percentTokens (c # cs) =
     (if c = 0x25 then
        (case cs of
           h1 # h2 # rest \<Rightarrow>
             (case (hexDigit h1, hexDigit h2) of
                (Some a, Some b) \<Rightarrow>
                  map_option ((#) (Octet (of_nat (16 * a + b)))) (percentTokens rest)
              | _ \<Rightarrow> None)
         | _ \<Rightarrow> None)
      else map_option ((#) (Lit c)) (percentTokens cs))"

text \<open>
  The \<open>n\<close> continuation octets after a lead octet: each must be an escaped octet in
  range, directly after the previous one.
\<close>

fun continuationOctets :: "nat \<Rightarrow> byte \<Rightarrow> byte \<Rightarrow> nat \<Rightarrow> uri_token list \<Rightarrow> nat option" where
  "continuationOctets n lo hi cp [] = (if n = 0 then Some cp else None)"
| "continuationOctets n lo hi cp (t # ts) =
     (if n = 0 then Some cp
      else
        (case t of
           Octet b \<Rightarrow>
             (if lo \<le> b \<and> b \<le> hi
              then continuationOctets (n - 1) 0x80 0xBF (cp * 64 + (unat b - 0x80)) ts
              else None)
         | Lit c \<Rightarrow> None))"

fun decodeTokens :: "uri_token list \<Rightarrow> jsstring option" where
  "decodeTokens [] = Some []"
| "decodeTokens (Lit c # ts) = map_option ((#) c) (decodeTokens ts)"
| "decodeTokens (Octet b # ts) =
     (if b < 0x80 then map_option ((#) (ucast b)) (decodeTokens ts)
      else
        (case utf8_lead b of
           None \<Rightarrow> None
         | Some (n, lo, hi, cp0) \<Rightarrow>
             (case continuationOctets n lo hi cp0 ts of
                None \<Rightarrow> None
              | Some cp \<Rightarrow> map_option ((@) (utf16_encode cp)) (decodeTokens (drop n ts)))))"

text \<open>
  \<^verbatim>\<open>decodeURIComponent\<close> throws a \<^verbatim>\<open>URIError\<close> on a malformed escape and on
  escaped octets that are not the UTF-8 encoding of a code point.
\<close>

definition decodeURIComponent :: "jsstring \<Rightarrow> js_error + jsstring" where
  "decodeURIComponent s =
     (case percentTokens s of
        None \<Rightarrow> Inl URIError
      | Some ts \<Rightarrow> (case decodeTokens ts of None \<Rightarrow> Inl URIError | Some r \<Rightarrow> Inr r))"

subsection \<open>decodeProjectName\<close>

definition isPathSeparator :: "jschar \<Rightarrow> bool" where
  "isPathSeparator c \<longleftrightarrow> c = 0x2F \<or> c = 0x5C"

text \<open>
  The \<^verbatim>\<open>try\<close> block decodes, removes the leading separators
  (\<^verbatim>\<open>/^[/\\]+/\<close>) and turns every run of separators into \<^verbatim>\<open>" - "\<close>; the
  \<^verbatim>\<open>catch\<close> block returns the encoded name.
\<close>

definition decodeProjectName :: "jsstring \<Rightarrow> jsstring" where
  "decodeProjectName encoded =
     (case decodeURIComponent encoded of
        Inr decoded \<Rightarrow>
          (let cleaned = replaceRuns isPathSeparator (js '' - '') False
                           (dropWhile isPathSeparator decoded)
           in if cleaned = [] then js ''Unknown Project'' else cleaned)
      | Inl error \<Rightarrow> encoded)"

text \<open>
  The specification's wording of the clean-up, read off a string from the left: a run of
  separators becomes \<^verbatim>\<open>" - "\<close>, a run of other characters is kept.
\<close>

function replaceSeparatorRuns_spec :: "jsstring \<Rightarrow> jsstring" where
  "replaceSeparatorRuns_spec s =
     (if s = [] then []
      else if isPathSeparator (hd s)
        then js '' - '' @ replaceSeparatorRuns_spec (dropWhile isPathSeparator s)
        else takeWhile (\<lambda>c. \<not> isPathSeparator c) s
               @ replaceSeparatorRuns_spec (dropWhile (\<lambda>c. \<not> isPathSeparator c) s))"
  by pat_completeness auto
termination
proof (relation "measure length")
  show "wf (measure length)" by simp
next
  fix s :: jsstring assume "s \<noteq> []" "isPathSeparator (hd s)"
  then show "(dropWhile isPathSeparator s, s) \<in> measure length"
    by (cases s) (auto simp: less_Suc_eq_le length_dropWhile_le)
next
  fix s :: jsstring assume "s \<noteq> []" "\<not> isPathSeparator (hd s)"
  then show "(dropWhile (\<lambda>c. \<not> isPathSeparator c) s, s) \<in> measure length"
    by (cases s) (auto simp: less_Suc_eq_le length_dropWhile_le)
qed

definition cleanProjectName_spec :: "jsstring \<Rightarrow> jsstring" where
  "cleanProjectName_spec decoded =
     (let cleaned = replaceSeparatorRuns_spec (dropWhile isPathSeparator decoded)
      in if cleaned = [] then js ''Unknown Project'' else cleaned)"

subsection \<open>Paths (POSIX)\<close>

text \<open>
  \<^verbatim>\<open>s.split(sep)\<close> and \<^verbatim>\<open>parts.join(sep)\<close> for a separator of one character, and
  \<^verbatim>\<open>s.replace(pattern, replacement)\<close> for a string pattern (the first occurrence only).
\<close>

fun splitOn :: "jschar \<Rightarrow> jsstring \<Rightarrow> jsstring list" where
  "splitOn sep [] = [[]]"
| "splitOn sep (c # cs) =
     (if c = sep then [] # splitOn sep cs
      else (case splitOn sep cs of [] \<Rightarrow> [[c]] | x # xs \<Rightarrow> (c # x) # xs))"

fun joinWith :: "jschar \<Rightarrow> jsstring list \<Rightarrow> jsstring" where
  "joinWith sep [] = []"
| "joinWith sep [x] = x"
| "joinWith sep (x # y # ys) = x @ sep # joinWith sep (y # ys)"

fun replaceFirst :: "jsstring \<Rightarrow> jsstring \<Rightarrow> jsstring \<Rightarrow> jsstring" where
  "replaceFirst pat rep [] = (if pat = [] then rep else [])"
| "replaceFirst pat rep (c # cs) =
     (if take (length pat) (c # cs) = pat then rep @ drop (length pat) (c # cs)
      else c # replaceFirst pat rep cs)"

text \<open>
  Node's \<^verbatim>\<open>normalizeString\<close>, segment by segment: empty segments and
  \<^verbatim>\<open>.\<close> are dropped, \<^verbatim>\<open>..\<close> removes the segment before it (or is kept,
  where the path may climb above its start), every other segment is kept.
\<close>

definition normalizeStep :: "bool \<Rightarrow> jsstring list \<Rightarrow> jsstring \<Rightarrow> jsstring list" where
  "normalizeStep allowAboveRoot res seg =
     (if seg = [] \<or> seg = js ''.'' then res
      else if seg = js ''..'' then
        (if res \<noteq> [] \<and> last res \<noteq> js ''..'' then butlast res
         else if allowAboveRoot then res @ [js ''..''] else res)
      else res @ [seg])"

definition normalizeString :: "jsstring \<Rightarrow> bool \<Rightarrow> jsstring" where
  "normalizeString p allowAboveRoot =
     joinWith 0x2F (foldl (normalizeStep allowAboveRoot) [] (splitOn 0x2F p))"

definition path_normalize :: "jsstring \<Rightarrow> jsstring" where
  "path_normalize p =
     (if p = [] then js ''.''
      else
        (let isAbsolute = (hd p = 0x2F);
             trailingSeparator = (last p = 0x2F);
             q = normalizeString p (\<not> isAbsolute)
         in if q = [] then (if isAbsolute then js ''/'' else if trailingSeparator then js ''./'' else js ''.'')
            else (let q' = (if trailingSeparator then q @ js ''/'' else q)
                  in if isAbsolute then 0x2F # q' else q')))"

definition path_join :: "jsstring list \<Rightarrow> jsstring" where
  "path_join args =
     (let parts = filter (\<lambda>a. a \<noteq> []) args
      in if parts = [] then js ''.'' else path_normalize (joinWith 0x2F parts))"

subsection \<open>parseClaudePath and getTargetPaths\<close>

text \<open>
  With fewer than two path segments \<^verbatim>\<open>parts[parts.length - 2]\<close> is
  \<^verbatim>\<open>undefined\<close>, which \<^verbatim>\<open>decodeURIComponent\<close> reads as the string
  \<^verbatim>\<open>"undefined"\<close>.
\<close>

record ParsedClaudePath =
  projectsDir :: jsstring
  encodedProjectName :: "jsstring option"
  decodedProjectName :: jsstring
  sessionId :: jsstring
  fullPath :: jsstring

definition parseClaudePath :: "jsstring \<Rightarrow> ParsedClaudePath" where
  "parseClaudePath filePath =
     (let normalized = path_normalize filePath;
          parts = splitOn 0x2F normalized;
          fileName = last parts;
          encoded = (if 2 \<le> length parts then Some (parts ! (length parts - 2)) else None)
      in \<lparr> projectsDir = joinWith 0x2F (take (length parts - 2) parts),
           encodedProjectName = encoded,
           decodedProjectName =
             decodeProjectName (case encoded of None \<Rightarrow> js ''undefined'' | Some e \<Rightarrow> e),
           sessionId = replaceFirst (js ''.jsonl'') [] fileName,
           fullPath = normalized \<rparr>)"

record TargetPaths =
  projectDir :: jsstring
  jsonlFile :: jsstring
  metaFile :: jsstring

text \<open>
  \<open>vaultBasePath\<close> is \<^verbatim>\<open>(vault.adapter as any).basePath\<close>: a string, or
  \<^verbatim>\<open>undefined\<close> where the adapter has none, on which \<^verbatim>\<open>path.join\<close> throws.
\<close>

definition getTargetPaths ::
  "jsstring option \<Rightarrow> jsstring \<Rightarrow> ParsedClaudePath \<Rightarrow> js_error + TargetPaths" where
  "getTargetPaths vaultBasePath storagePath parsedPath =
     (let sanitizedProjectName = sanitizeFileName (decodedProjectName parsedPath)
      in case vaultBasePath of
           None \<Rightarrow>
             Inl (TypeError (Some (OtherCode (js ''ERR_INVALID_ARG_TYPE'')))
                    (js ''The \"path\" argument must be of type string. Received undefined''))
         | Some base \<Rightarrow>
             (let dir = path_join [base, storagePath, sanitizedProjectName]
              in Inr \<lparr> projectDir = dir,
                       jsonlFile = path_join [dir, sessionId parsedPath @ js ''.jsonl''],
                       metaFile = path_join [dir, sessionId parsedPath @ js ''.meta.json''] \<rparr>))"

text \<open>
  \<^verbatim>\<open>getErrorMessage\<close>: an error with a \<^verbatim>\<open>code\<close> is named by the
  \<^verbatim>\<open>switch\<close> on its code, whatever its message; an error without a code gives its
  message, or its name (what \<^verbatim>\<open>toString\<close> returns) when the message is empty.
\<close>

definition codeMessage :: "errcode \<Rightarrow> jsstring" where
  "codeMessage code =
     (case code of
        EACCES \<Rightarrow> js ''Permission denied''
      | ENOENT \<Rightarrow> js ''File or directory not found''
      | ENOSPC \<Rightarrow> js ''Disk full''
      | ENOTDIR \<Rightarrow> js ''Not a directory''
      | EISDIR \<Rightarrow> js ''Is a directory''
      | EEXIST \<Rightarrow> js ''File already exists''
      | OtherCode c \<Rightarrow> js ''File system error: '' @ c)"

definition getErrorMessage :: "js_error \<Rightarrow> jsstring" where
  "getErrorMessage error =
     (case error of
        FsError code \<Rightarrow> codeMessage code
      | TypeError (Some code) m \<Rightarrow> codeMessage code
      | TypeError None m \<Rightarrow> (if m \<noteq> [] then m else js ''TypeError'')
      | RangeError m \<Rightarrow> (if m \<noteq> [] then m else js ''RangeError'')
      | URIError \<Rightarrow> js ''URI malformed'')"

section \<open>The syncer\<close>

subsection \<open>Data\<close>

text \<open>
  JavaScript numbers are compared, never computed with beyond \<^verbatim>\<open>+ 1000\<close>, so
  finite numbers are modelled by their rational values. A line that parses is the value
  \<^verbatim>\<open>null\<close>, of which no property can be read, or another value, of which every
  property can be read (as \<^verbatim>\<open>undefined\<close> where it has none). For the latter the
  casts of the sources (\<^verbatim>\<open>as ClaudeMessage\<close>, \<^verbatim>\<open>: SessionMetadata\<close>) are
  taken at their word: of a message the code reads \<open>timestamp\<close>, a number,
  \<^verbatim>\<open>undefined\<close> or \<^verbatim>\<open>null\<close> (\<open>None\<close> for both), and the strings
  \<open>gitBranch\<close> and \<open>version\<close>, which may be absent.
\<close>

type_synonym number = rat

record ClaudeMessage =
  timestamp :: "number option"
  gitBranch :: "jsstring option"
  version :: "jsstring option"

datatype parsed_line = JsonNull | JsonMessage ClaudeMessage

record SessionMetadata =
  meta_sessionId :: jsstring
  projectName :: jsstring
  projectPath :: "jsstring option"
  messageCount :: nat
  firstTimestamp :: number
  lastTimestamp :: number
  meta_gitBranch :: "jsstring option"
  meta_version :: "jsstring option"
  syncedAt :: number
  sourceFilePath :: jsstring

datatype sync_action = Created | Updated | Skipped | Error

record SyncResult =
  success :: bool
  result_sessionId :: jsstring
  result_projectName :: jsstring
  action :: sync_action
  message :: "jsstring option"
  error :: "js_error option"

text \<open>
  \<^verbatim>\<open>JSON.parse\<close> (\<open>None\<close>: it throws a \<^verbatim>\<open>SyntaxError\<close>) and
  \<^verbatim>\<open>JSON.stringify\<close> are parameters, and so is the number of arguments that the
  engine takes in one call (\<^verbatim>\<open>Math.min(...timestamps)\<close> passes every timestamp as
  an argument, and a call with more of them throws a \<^verbatim>\<open>RangeError\<close>).
\<close>

record js_lib =
  JSON_parse_message :: "jsstring \<Rightarrow> parsed_line option"
  JSON_parse_metadata :: "jsstring \<Rightarrow> SessionMetadata option"
  JSON_stringify_metadata :: "SessionMetadata \<Rightarrow> jsstring"
  maxArguments :: nat

subsection \<open>The file system and the plugin state\<close>

text \<open>
  A file has its bytes and its modification time. Every operation fails with
  \<^verbatim>\<open>ENOENT\<close> on a missing file where Node does, and with whatever error the
  environment injects for that operation and path (\<open>faults\<close>): permissions, a full
  disk, a failing settings store. Directories are not tracked.
\<close>

record fs_file =
  content :: "byte list"
  mtimeMs :: number

datatype fs_op = OpAccess | OpReadFile | OpStat | OpReadStream | OpMkdir | OpWriteFile | OpSaveData

record world =
  files :: "jsstring \<Rightarrow> fs_file option"
  faults :: "fs_op \<Rightarrow> jsstring \<Rightarrow> errcode option"
  clock :: number
  vaultBasePath :: "jsstring option"
  obsidianStoragePath :: jsstring
  lastSyncTime :: number
  syncInProgress :: "jsstring set"

definition fs_access :: "world \<Rightarrow> jsstring \<Rightarrow> js_error + unit" where
  "fs_access w p =
     (case faults w OpAccess p of
        Some e \<Rightarrow> Inl (FsError e)
      | None \<Rightarrow> (case files w p of None \<Rightarrow> Inl (FsError ENOENT) | Some f \<Rightarrow> Inr ()))"

definition fs_readFile :: "world \<Rightarrow> jsstring \<Rightarrow> js_error + jsstring" where
  "fs_readFile w p =
     (case faults w OpReadFile p of
        Some e \<Rightarrow> Inl (FsError e)
      | None \<Rightarrow>
          (case files w p of
             None \<Rightarrow> Inl (FsError ENOENT)
           | Some f \<Rightarrow> Inr (utf8_decode (content f))))"

definition fs_stat :: "world \<Rightarrow> jsstring \<Rightarrow> js_error + number" where
  "fs_stat w p =
     (case faults w OpStat p of
        Some e \<Rightarrow> Inl (FsError e)
      | None \<Rightarrow> (case files w p of None \<Rightarrow> Inl (FsError ENOENT) | Some f \<Rightarrow> Inr (mtimeMs f)))"

definition fs_writeFile :: "world \<Rightarrow> jsstring \<Rightarrow> jsstring \<Rightarrow> js_error + world" where
  "fs_writeFile w p s =
     (case faults w OpWriteFile p of
        Some e \<Rightarrow> Inl (FsError e)
      | None \<Rightarrow>
          Inr (w\<lparr>files := (files w)(p \<mapsto> \<lparr>content = utf8_encode s, mtimeMs = clock w\<rparr>)\<rparr>))"

definition fs_mkdir :: "world \<Rightarrow> jsstring \<Rightarrow> js_error + unit" where
  "fs_mkdir w p = (case faults w OpMkdir p of Some e \<Rightarrow> Inl (FsError e) | None \<Rightarrow> Inr ())"

definition ensureDirectory :: "world \<Rightarrow> jsstring \<Rightarrow> js_error + unit" where
  "ensureDirectory w dirPath =
     (case fs_mkdir w dirPath of
        Inl e \<Rightarrow> (if e \<noteq> FsError EEXIST then Inl e else Inr ())
      | Inr u \<Rightarrow> Inr ())"

definition saveSettings :: "world \<Rightarrow> js_error + unit" where
  "saveSettings w = (case faults w OpSaveData [] of Some e \<Rightarrow> Inl (FsError e) | None \<Rightarrow> Inr ())"

text \<open>
  The text that \<^verbatim>\<open>readline\<close> gets from the stream of a file. The bytes go through
  Node's \<^verbatim>\<open>StringDecoder\<close>, which decodes like \<^verbatim>\<open>Buffer.toString\<close> but holds
  back the bytes of a character that is not complete at the end of what it was given,
  to decode them with the bytes that follow; \<^verbatim>\<open>readline\<close> never asks for them when
  the stream ends, so they are dropped. The decoder looks at the end of the data only
  when the last byte is not ASCII: it goes back over at most three continuation bytes
  (\<^verbatim>\<open>10xxxxxx\<close>) to the byte that starts the character, and holds back what it has
  passed if that byte calls for more bytes than there are. \<open>missingBytes\<close> is the length
  that the first byte of a character announces: 2 for \<^verbatim>\<open>110xxxxx\<close>, 3 for
  \<^verbatim>\<open>1110xxxx\<close>, 4 for \<^verbatim>\<open>11110xxx\<close>. The chunks in which the stream delivers
  the file are not modelled: a character that the decoder holds back at the end of a
  chunk is decoded with the next chunk.
\<close>

definition missingBytes :: "byte \<Rightarrow> nat" where
  "missingBytes b =
     (if 0xC0 \<le> b \<and> b \<le> 0xDF then 2
      else if 0xE0 \<le> b \<and> b \<le> 0xEF then 3
      else if 0xF0 \<le> b \<and> b \<le> 0xF7 then 4
      else 0)"

text \<open>
  The number of bytes held back: \<open>reversed\<close> is the data from its last byte backwards,
  \<open>buffered\<close> the number of bytes passed so far.
\<close>

fun bufferedBytes :: "byte list \<Rightarrow> nat \<Rightarrow> nat" where
  "bufferedBytes [] buffered = 0"
| "bufferedBytes (b # reversed) buffered =
     (if isContinuation b then
        (if buffered + 1 \<ge> 4 \<or> reversed = [] then 0
         else bufferedBytes reversed (buffered + 1))
      else if buffered + 1 \<ge> missingBytes b then 0
      else buffered + 1)"

definition streamDecode :: "byte list \<Rightarrow> jsstring" where
  "streamDecode data =
     (if data \<noteq> [] \<and> last data \<ge> 0x80
      then utf8_decode (take (length data - bufferedBytes (rev data) 0) data)
      else utf8_decode data)"

text \<open>
  The lines \<^verbatim>\<open>readline\<close> yields (with \<^verbatim>\<open>crlfDelay: Infinity\<close>): the text is cut
  at \<^verbatim>\<open>\r\n\<close>, \<^verbatim>\<open>\n\<close> and \<^verbatim>\<open>\r\<close>, and what follows the last terminator is a
  line if it is not empty. \<open>cur\<close> is the current line, reversed; \<open>afterCR\<close> says that
  the previous character was \<^verbatim>\<open>\r\<close>.
\<close>

fun readlineLines :: "jsstring \<Rightarrow> bool \<Rightarrow> jsstring \<Rightarrow> jsstring list" where
  "readlineLines cur afterCR [] = (if cur = [] then [] else [rev cur])"
| "readlineLines cur afterCR (c # cs) =
     (if c = 0x0A then
        (if afterCR then readlineLines [] False cs else rev cur # readlineLines [] False cs)
      else if c = 0x0D then rev cur # readlineLines [] True cs
      else readlineLines (c # cur) False cs)"

definition readLines :: "world \<Rightarrow> jsstring \<Rightarrow> js_error + jsstring list" where
  "readLines w p =
     (case faults w OpReadStream p of
        Some e \<Rightarrow> Inl (FsError e)
      | None \<Rightarrow>
          (case files w p of
             None \<Rightarrow> Inl (FsError ENOENT)
           | Some f \<Rightarrow> Inr (readlineLines [] False (streamDecode (content f)))))"

subsection \<open>shouldSync\<close>

text \<open>
  The \<^verbatim>\<open>try\<close> block: access and read the metadata file, parse it, stat the source,
  compare. The \<^verbatim>\<open>catch\<close> block answers \<^verbatim>\<open>true\<close> for \<^verbatim>\<open>ENOENT\<close> and for
  every other error.
\<close>

definition shouldSync_try :: "js_lib \<Rightarrow> world \<Rightarrow> jsstring \<Rightarrow> jsstring \<Rightarrow> js_error option + bool" where
  "shouldSync_try L w sourcePath metaFilePath =
     (case fs_access w metaFilePath of
        Inl e \<Rightarrow> Inl (Some e)
      | Inr u \<Rightarrow>
          (case fs_readFile w metaFilePath of
             Inl e \<Rightarrow> Inl (Some e)
           | Inr metaContent \<Rightarrow>
               (case JSON_parse_metadata L metaContent of
                  None \<Rightarrow> Inl None
                | Some metadata \<Rightarrow>
                    (case fs_stat w sourcePath of
                       Inl e \<Rightarrow> Inl (Some e)
                     | Inr sourceMtimeMs \<Rightarrow> Inr (sourceMtimeMs > syncedAt metadata)))))"

definition shouldSync :: "js_lib \<Rightarrow> world \<Rightarrow> jsstring \<Rightarrow> jsstring \<Rightarrow> bool" where
  "shouldSync L w sourcePath metaFilePath =
     (case shouldSync_try L w sourcePath metaFilePath of
        Inl e \<Rightarrow> (if e = Some (FsError ENOENT) then True else True)
      | Inr b \<Rightarrow> b)"

subsection \<open>parseJsonlFile\<close>

text \<open>
  The loop over the lines: blank lines are skipped, a line that parses is pushed, a line
  that does not parse is logged and skipped.
\<close>

fun parseLines :: "js_lib \<Rightarrow> jsstring list \<Rightarrow> parsed_line list \<Rightarrow> parsed_line list" where
  "parseLines L [] messages = messages"
| "parseLines L (line # rest) messages =
     (if trim line = [] then parseLines L rest messages
      else
        (case JSON_parse_message L line of
           Some m \<Rightarrow> parseLines L rest (messages @ [m])
         | None \<Rightarrow> parseLines L rest messages))"

definition parseJsonlFile :: "js_lib \<Rightarrow> world \<Rightarrow> jsstring \<Rightarrow> js_error + parsed_line list" where
  "parseJsonlFile L w filePath =
     (case readLines w filePath of
        Inl e \<Rightarrow> Inl e
      | Inr ls \<Rightarrow> Inr (parseLines L ls []))"

subsection \<open>generateMetadata\<close>

text \<open>
  Reading a property of \<^verbatim>\<open>null\<close> throws a \<^verbatim>\<open>TypeError\<close> that names the
  property.
\<close>

definition nullPropertyError :: "jsstring \<Rightarrow> js_error" where
  "nullPropertyError name =
     TypeError None
       (js ''Cannot read properties of null (reading '' @ [0x27] @ name @ [0x27] @ js '')'')"

text \<open>\<^verbatim>\<open>messages.map(m => m.timestamp)\<close>\<close>

fun mapTimestamps :: "parsed_line list \<Rightarrow> js_error + number option list" where
  "mapTimestamps [] = Inr []"
| "mapTimestamps (m # messages) =
     (case m of
        JsonNull \<Rightarrow> Inl (nullPropertyError (js ''timestamp''))
      | JsonMessage c \<Rightarrow>
          (case mapTimestamps messages of
             Inl e \<Rightarrow> Inl e
           | Inr ts \<Rightarrow> Inr (timestamp c # ts)))"

text \<open>
  \<^verbatim>\<open>messages.find(m => m.gitBranch)?.gitBranch\<close>: the field of the first message whose
  field is truthy (a string that is not empty).
\<close>

definition truthy :: "jsstring option \<Rightarrow> bool" where
  "truthy v \<longleftrightarrow> (case v of None \<Rightarrow> False | Some s \<Rightarrow> s \<noteq> [])"

fun findField ::
  "jsstring \<Rightarrow> (ClaudeMessage \<Rightarrow> jsstring option) \<Rightarrow> parsed_line list \<Rightarrow> js_error + jsstring option" where
  "findField name field [] = Inr None"
| "findField name field (m # messages) =
     (case m of
        JsonNull \<Rightarrow> Inl (nullPropertyError name)
      | JsonMessage c \<Rightarrow>
          (if truthy (field c) then Inr (field c) else findField name field messages))"

text \<open>\<^verbatim>\<open>.filter(t => t !== undefined && t !== null)\<close>\<close>

definition presentTimestamps :: "number option list \<Rightarrow> number list" where
  "presentTimestamps ts = map the (filter (\<lambda>t. t \<noteq> None) ts)"

text \<open>
  \<^verbatim>\<open>timestamps.length > 0 ? Math.min(...timestamps) : Date.now()\<close>, and the same with
  \<^verbatim>\<open>Math.max\<close>: the call throws when there are more timestamps than a call takes
  arguments. \<^verbatim>\<open>Date.now()\<close> reads the clock of the world, which does not advance
  inside the synchronous construction of the record.
\<close>

definition generateMetadata ::
  "js_lib \<Rightarrow> world \<Rightarrow> parsed_line list \<Rightarrow> jsstring \<Rightarrow> ParsedClaudePath
     \<Rightarrow> js_error + SessionMetadata" where
  "generateMetadata L w messages sourcePath parsedPath =
     (case mapTimestamps messages of
        Inl e \<Rightarrow> Inl e
      | Inr ts \<Rightarrow>
          (let timestamps = presentTimestamps ts
           in case findField (js ''gitBranch'') gitBranch messages of
                Inl e \<Rightarrow> Inl e
              | Inr branch \<Rightarrow>
                  (case findField (js ''version'') version messages of
                     Inl e \<Rightarrow> Inl e
                   | Inr ver \<Rightarrow>
                       if length timestamps > 0 \<and> length timestamps > maxArguments L then
                         Inl (RangeError (js ''Maximum call stack size exceeded''))
                       else
                         Inr \<lparr> meta_sessionId = sessionId parsedPath,
                               projectName = decodedProjectName parsedPath,
                               projectPath = encodedProjectName parsedPath,
                               messageCount = length messages,
                               firstTimestamp =
                                 (case timestamps of [] \<Rightarrow> clock w | t # ts \<Rightarrow> foldl min t ts),
                               lastTimestamp =
                                 (case timestamps of [] \<Rightarrow> clock w | t # ts \<Rightarrow> foldl max t ts),
                               meta_gitBranch = branch,
                               meta_version = ver,
                               syncedAt = clock w,
                               sourceFilePath = sourcePath \<rparr>)))"

subsection \<open>syncSingleFile\<close>

text \<open>The result records that \<^verbatim>\<open>syncSingleFile\<close> returns.\<close>

definition inProgressResult :: SyncResult where
  "inProgressResult =
     \<lparr> success = False, result_sessionId = [], result_projectName = [], action = Skipped,
       message = Some (js ''Sync already in progress''), error = None \<rparr>"

definition upToDateResult :: "ParsedClaudePath \<Rightarrow> SyncResult" where
  "upToDateResult parsedPath =
     \<lparr> success = True, result_sessionId = sessionId parsedPath,
       result_projectName = decodedProjectName parsedPath, action = Skipped,
       message = Some (js ''Already up to date''), error = None \<rparr>"

definition emptyFileResult :: "ParsedClaudePath \<Rightarrow> SyncResult" where
  "emptyFileResult parsedPath =
     \<lparr> success = False, result_sessionId = sessionId parsedPath,
       result_projectName = decodedProjectName parsedPath, action = Skipped,
       message = Some (js ''Empty JSONL file''), error = None \<rparr>"

definition copiedResult :: "ParsedClaudePath \<Rightarrow> TargetPaths \<Rightarrow> SyncResult" where
  "copiedResult parsedPath targetPaths =
     \<lparr> success = True, result_sessionId = sessionId parsedPath,
       result_projectName = decodedProjectName parsedPath,
       action = (if jsonlFile targetPaths \<noteq> [] then Updated else Created),
       message = None, error = None \<rparr>"

definition errorResult :: "js_error \<Rightarrow> SyncResult" where
  "errorResult e =
     \<lparr> success = False, result_sessionId = [], result_projectName = [], action = Error,
       message = Some (getErrorMessage e), error = Some e \<rparr>"

text \<open>
  The \<^verbatim>\<open>try\<close> block of \<^verbatim>\<open>syncSingleFile\<close>, in the order of the source, in two
  parts. Each returns the world as the block leaves it (a write that succeeded stays
  written when a later step throws) and the result or the thrown error.

  The second part, for a file that needs a sync and has messages: generate the metadata,
  ensure the directory, read the source, write the copy and the metadata, store the time
  of the sync.
\<close>

definition syncSingleFile_write ::
  "js_lib \<Rightarrow> world \<Rightarrow> jsstring \<Rightarrow> ParsedClaudePath \<Rightarrow> TargetPaths \<Rightarrow> parsed_line list
     \<Rightarrow> world \<times> (js_error + SyncResult)" where
  "syncSingleFile_write L w filePath parsedPath targetPaths messages =
     (case generateMetadata L w messages filePath parsedPath of
        Inl e \<Rightarrow> (w, Inl e)
      | Inr metadata \<Rightarrow>
          (case ensureDirectory w (projectDir targetPaths) of
             Inl e \<Rightarrow> (w, Inl e)
           | Inr u \<Rightarrow>
               (case fs_readFile w filePath of
                  Inl e \<Rightarrow> (w, Inl e)
                | Inr originalContent \<Rightarrow>
                    (case fs_writeFile w (jsonlFile targetPaths) originalContent of
                       Inl e \<Rightarrow> (w, Inl e)
                     | Inr w1 \<Rightarrow>
                         (case fs_writeFile w1 (metaFile targetPaths)
                                 (JSON_stringify_metadata L metadata) of
                            Inl e \<Rightarrow> (w1, Inl e)
                          | Inr w2 \<Rightarrow>
                              (let w3 = w2\<lparr>lastSyncTime := clock w2\<rparr>
                               in case saveSettings w3 of
                                    Inl e \<Rightarrow> (w3, Inl e)
                                  | Inr u \<Rightarrow>
                                      (w3, Inr (copiedResult parsedPath targetPaths))))))))"

text \<open>
  The first part: parse the path, compute the target paths, ask \<open>shouldSync\<close>, parse
  the file, and skip a file without messages.
\<close>

definition syncSingleFile_try :: "js_lib \<Rightarrow> world \<Rightarrow> jsstring \<Rightarrow> world \<times> (js_error + SyncResult)" where
  "syncSingleFile_try L w filePath =
     (let parsedPath = parseClaudePath filePath
      in case getTargetPaths (vaultBasePath w) (obsidianStoragePath w) parsedPath of
           Inl e \<Rightarrow> (w, Inl e)
         | Inr targetPaths \<Rightarrow>
             if \<not> shouldSync L w filePath (metaFile targetPaths) then
               (w, Inr (upToDateResult parsedPath))
             else
               (case parseJsonlFile L w filePath of
                  Inl e \<Rightarrow> (w, Inl e)
                | Inr messages \<Rightarrow>
                    if length messages = 0 then
                      (w, Inr (emptyFileResult parsedPath))
                    else syncSingleFile_write L w filePath parsedPath targetPaths messages))"

text \<open>
  The whole call: the re-entrancy guard, the \<^verbatim>\<open>try\<close> block, the \<^verbatim>\<open>catch\<close>
  block that turns an error into a result, and the \<^verbatim>\<open>finally\<close> block.
\<close>

definition syncSingleFile :: "js_lib \<Rightarrow> world \<Rightarrow> jsstring \<Rightarrow> world \<times> SyncResult" where
  "syncSingleFile L w filePath =
     (if filePath \<in> syncInProgress w then (w, inProgressResult)
      else
        (case syncSingleFile_try L (w\<lparr>syncInProgress := insert filePath (syncInProgress w)\<rparr>) filePath of
           (w', r) \<Rightarrow>
             (w'\<lparr>syncInProgress := syncInProgress w' - {filePath}\<rparr>,
              case r of Inl e \<Rightarrow> errorResult e | Inr res \<Rightarrow> res)))"

subsection \<open>The staleness policy in the words of the specification\<close>

text \<open>
  What a sync attempt finds at the place of the sidecar: nothing, a file that cannot be
  read, a file that does not parse, or the prior metadata.
\<close>

datatype sidecar_state = NoSidecar | Unreadable | Unparsable | PriorMetadata SessionMetadata

definition readSidecar :: "js_lib \<Rightarrow> world \<Rightarrow> jsstring \<Rightarrow> sidecar_state" where
  "readSidecar L w metaFilePath =
     (case fs_access w metaFilePath of
        Inl e \<Rightarrow> (if e = FsError ENOENT then NoSidecar else Unreadable)
      | Inr u \<Rightarrow>
          (case fs_readFile w metaFilePath of
             Inl e \<Rightarrow> Unreadable
           | Inr s \<Rightarrow>
               (case JSON_parse_metadata L s of
                  None \<Rightarrow> Unparsable
                | Some md \<Rightarrow> PriorMetadata md)))"

subsection \<open>The timestamps of the entries in the words of the specification\<close>

text \<open>
  The timestamp that is present on an entry: \<^verbatim>\<open>null\<close> has none, a message has the
  one of its \<open>timestamp\<close> field, if any. The timestamps present in a sequence of
  entries, in their order.
\<close>

definition entryTimestamp :: "parsed_line \<Rightarrow> number option" where
  "entryTimestamp m = (case m of JsonNull \<Rightarrow> None | JsonMessage c \<Rightarrow> timestamp c)"

definition timestampsPresent :: "parsed_line list \<Rightarrow> number list" where
  "timestampsPresent ms = List.map_filter entryTimestamp ms"

subsection \<open>Files cut off inside a character\<close>


subsection \<open>The summary of a manual sync\<close>

text \<open>
  \<^verbatim>\<open>triggerManualSync\<close> counts the results by their \<open>success\<close> flag and shows one
  of two notices.
\<close>

datatype notice = SyncComplete nat | SyncCompleteWithErrors nat nat

definition successCount :: "SyncResult list \<Rightarrow> nat" where
  "successCount results = length (filter (\<lambda>r. success r) results)"

definition errorCount :: "SyncResult list \<Rightarrow> nat" where
  "errorCount results = length (filter (\<lambda>r. \<not> success r) results)"

definition manualSyncNotice :: "SyncResult list \<Rightarrow> notice" where
  "manualSyncNotice results =
     (if errorCount results = 0 then SyncComplete (successCount results)
      else SyncCompleteWithErrors (successCount results) (errorCount results))"

text \<open>
  The results of a bulk sync over the files found, one call after the other. (Inside a
  batch the calls of the source overlap; each call is taken as a whole here.)
\<close>

fun syncEach :: "js_lib \<Rightarrow> world \<Rightarrow> jsstring list \<Rightarrow> world \<times> SyncResult list" where
  "syncEach L w [] = (w, [])"
| "syncEach L w (f # fs) =
     (case syncSingleFile L w f of
        (w', r) \<Rightarrow> (case syncEach L w' fs of (w'', rs) \<Rightarrow> (w'', r # rs)))"

subsection \<open>Overlapping calls of syncSingleFile\<close>

text \<open>
  \<^verbatim>\<open>syncSingleFile\<close> is asynchronous: the guard and the insertion into
  \<open>syncInProgress\<close> run when it is called, the \<^verbatim>\<open>try\<close> block runs while other
  calls may start, and the \<^verbatim>\<open>finally\<close> block removes the path when the call
  completes. An engine state holds the world, the calls that passed the guard and have
  not completed, and the results returned so far. The \<^verbatim>\<open>try\<close> block of a call is
  run as a whole when the call completes; it never touches \<open>syncInProgress\<close>.
\<close>

datatype sync_event = Call jsstring | Complete jsstring

record engine =
  engine_world :: world
  active :: "jsstring list"
  results :: "SyncResult list"

definition callSync :: "engine \<Rightarrow> jsstring \<Rightarrow> engine" where
  "callSync st filePath =
     (if filePath \<in> syncInProgress (engine_world st)
      then st\<lparr>results := results st @ [inProgressResult]\<rparr>
      else st\<lparr>engine_world :=
                (engine_world st)\<lparr>syncInProgress :=
                   insert filePath (syncInProgress (engine_world st))\<rparr>,
              active := active st @ [filePath]\<rparr>)"

definition completeSync :: "js_lib \<Rightarrow> engine \<Rightarrow> jsstring \<Rightarrow> engine" where
  "completeSync L st filePath =
     (if filePath \<in> set (active st) then
        (case syncSingleFile_try L (engine_world st) filePath of
           (w', r) \<Rightarrow>
             st\<lparr>engine_world := w'\<lparr>syncInProgress := syncInProgress w' - {filePath}\<rparr>,
                active := remove1 filePath (active st),
                results := results st @ [case r of Inl e \<Rightarrow> errorResult e | Inr res \<Rightarrow> res]\<rparr>)
      else st)"

fun engineStep :: "js_lib \<Rightarrow> engine \<Rightarrow> sync_event \<Rightarrow> engine" where
  "engineStep L st (Call p) = callSync st p"
| "engineStep L st (Complete p) = completeSync L st p"

definition runEngine :: "js_lib \<Rightarrow> sync_event list \<Rightarrow> engine \<Rightarrow> engine" where
  "runEngine L evs st = foldl (engineStep L) st evs"

text \<open>The calls in flight are exactly the paths marked as in progress, each once.\<close>

definition consistent :: "engine \<Rightarrow> bool" where
  "consistent st \<longleftrightarrow>
     distinct (active st) \<and> set (active st) = syncInProgress (engine_world st)"

subsection \<open>Debounced scheduling\<close>

text \<open>
  The timers of the event loop are explicit: \<^verbatim>\<open>setTimeout\<close> adds a timer with a
  fresh id that is due after the delay, \<^verbatim>\<open>clearTimeout\<close> removes the timer with the
  given id. When a timer of \<open>scheduleSyncWithDebounce\<close> fires, its callback deletes
  the pending entry of its path and calls \<^verbatim>\<open>executeSync\<close>; the calls are recorded
  with the time at which the timer was due.
\<close>

record PendingSync =
  filePath :: jsstring
  scheduledTime :: number
  timeoutId :: nat

record timer =
  timer_id :: nat
  due :: number
  timer_path :: jsstring

record scheduler =
  now :: number
  timers :: "timer list"
  nextTimeoutId :: nat
  pendingSyncs :: "jsstring \<Rightarrow> PendingSync option"
  executed :: "(number \<times> jsstring) list"

definition clearTimeout :: "nat \<Rightarrow> scheduler \<Rightarrow> scheduler" where
  "clearTimeout i s = s\<lparr>timers := filter (\<lambda>tm. timer_id tm \<noteq> i) (timers s)\<rparr>"

definition setTimeout :: "number \<Rightarrow> jsstring \<Rightarrow> scheduler \<Rightarrow> nat \<times> scheduler" where
  "setTimeout delay p s =
     (nextTimeoutId s,
      s\<lparr>timers := timers s @ [\<lparr>timer_id = nextTimeoutId s, due = now s + delay, timer_path = p\<rparr>],
        nextTimeoutId := Suc (nextTimeoutId s)\<rparr>)"

definition scheduleSyncWithDebounce :: "jsstring \<Rightarrow> scheduler \<Rightarrow> scheduler" where
  "scheduleSyncWithDebounce p s =
     (let s1 = (case pendingSyncs s p of
                  Some existing \<Rightarrow> clearTimeout (timeoutId existing) s
                | None \<Rightarrow> s)
      in case setTimeout 1000 p s1 of
           (tid, s2) \<Rightarrow>
             s2\<lparr>pendingSyncs := (pendingSyncs s2)
                   (p \<mapsto> \<lparr>filePath = p, scheduledTime = now s2 + 1000, timeoutId = tid\<rparr>)\<rparr>)"

definition fireTimer :: "timer \<Rightarrow> scheduler \<Rightarrow> scheduler" where
  "fireTimer tm s =
     s\<lparr>pendingSyncs := (pendingSyncs s)(timer_path tm := None),
       executed := executed s @ [(due tm, timer_path tm)]\<rparr>"

text \<open>
  Time passes until \<open>t\<close>: the timers due by then fire in the order of their due times
  (the earlier created first among equals).
\<close>

definition advance :: "number \<Rightarrow> scheduler \<Rightarrow> scheduler" where
  "advance t s =
     (fold fireTimer (sort_key due (filter (\<lambda>tm. due tm \<le> t) (timers s)))
        (s\<lparr>timers := filter (\<lambda>tm. \<not> due tm \<le> t) (timers s)\<rparr>))
     \<lparr>now := t\<rparr>"

text \<open>
  The watcher reports a created or changed file at time \<open>t\<close>: both handlers call
  \<open>scheduleSyncWithDebounce\<close>.
\<close>

definition fsEvent :: "scheduler \<Rightarrow> number \<times> jsstring \<Rightarrow> scheduler" where
  "fsEvent s ev = scheduleSyncWithDebounce (snd ev) (advance (fst ev) s)"

definition runWatch :: "(number \<times> jsstring) list \<Rightarrow> scheduler \<Rightarrow> scheduler" where
  "runWatch evs s = foldl fsEvent s evs"

text \<open>The times at which a sync of \<open>p\<close> was executed, and the live timers of \<open>p\<close>.\<close>

definition syncsOf :: "jsstring \<Rightarrow> scheduler \<Rightarrow> number list" where
  "syncsOf p s = map fst (filter (\<lambda>e. snd e = p) (executed s))"

definition armed :: "jsstring \<Rightarrow> scheduler \<Rightarrow> timer list" where
  "armed p s = filter (\<lambda>tm. timer_path tm = p) (timers s)"

text \<open>
  Every event of the list arrives within the debounce window of the latest event for
  \<open>p\<close> before it (\<open>latest\<close>: the time of that event, if there was one), and not
  before it.
\<close>

fun withinWindow :: "jsstring \<Rightarrow> number option \<Rightarrow> (number \<times> jsstring) list \<Rightarrow> bool" where
  "withinWindow p latest [] = True"
| "withinWindow p latest (ev # evs) =
     ((case latest of None \<Rightarrow> True | Some l \<Rightarrow> l \<le> fst ev \<and> fst ev < l + 1000)
      \<and> withinWindow p (if snd ev = p then Some (fst ev) else latest) evs)"

fun latestEvent :: "jsstring \<Rightarrow> number option \<Rightarrow> (number \<times> jsstring) list \<Rightarrow> number option" where
  "latestEvent p latest [] = latest"
| "latestEvent p latest (ev # evs) =
     latestEvent p (if snd ev = p then Some (fst ev) else latest) evs"

text \<open>
  What is live for \<open>p\<close> after the events so far: no timer when there was no event for
  \<open>p\<close>, and otherwise exactly one timer, due one second after the latest event.
\<close>

definition awaiting :: "jsstring \<Rightarrow> number option \<Rightarrow> scheduler \<Rightarrow> bool" where
  "awaiting p latest s \<longleftrightarrow>
     (case latest of
        None \<Rightarrow> armed p s = []
      | Some l \<Rightarrow> (\<exists>i. armed p s = [\<lparr>timer_id = i, due = l + 1000, timer_path = p\<rparr>]))"

text \<open>
  The state of the scheduler is well formed: timer ids are not reused, every live timer
  is the one its path's pending entry names, and every pending entry has its live timer.
\<close>

definition wellFormed :: "scheduler \<Rightarrow> bool" where
  "wellFormed s \<longleftrightarrow>
     distinct (map timer_id (timers s))
     \<and> (\<forall>tm \<in> set (timers s). timer_id tm < nextTimeoutId s
           \<and> map_option timeoutId (pendingSyncs s (timer_path tm)) = Some (timer_id tm))
     \<and> (\<forall>q ex. pendingSyncs s q = Some ex \<longrightarrow>
           (\<exists>tm \<in> set (timers s). timer_id tm = timeoutId ex \<and> timer_path tm = q))"

text \<open>The scheduler of a syncer that has just been constructed.\<close>

definition initialScheduler :: "number \<Rightarrow> scheduler" where
  "initialScheduler t =
     \<lparr> now = t, timers = [], nextTimeoutId = 0, pendingSyncs = (\<lambda>p. None), executed = [] \<rparr>"

section \<open>Example data\<close>

text \<open>
  A source log below a projects directory, its parsed path and its targets in a vault at
  \<^verbatim>\<open>/v\<close> with the storage path \<^verbatim>\<open>C\<close>.
\<close>

definition exampleSource :: jsstring where
  "exampleSource = js ''/c/p%2Fq/s.jsonl''"

definition examplePath :: ParsedClaudePath where
  "examplePath =
     \<lparr> projectsDir = js ''/c'', encodedProjectName = Some (js ''p%2Fq''),
       decodedProjectName = js ''p - q'', sessionId = js ''s'',
       fullPath = js ''/c/p%2Fq/s.jsonl'' \<rparr>"

definition exampleTargets :: TargetPaths where
  "exampleTargets =
     \<lparr> projectDir = js ''/v/C/p - q'', jsonlFile = js ''/v/C/p - q/s.jsonl'',
       metaFile = js ''/v/C/p - q/s.meta.json'' \<rparr>"

text \<open>ASCII text as bytes, and lines of it with a line feed after every line.\<close>

definition ascii :: "string \<Rightarrow> byte list" where
  "ascii s = map (\<lambda>c. of_char c) s"

definition asciiLines :: "string list \<Rightarrow> byte list" where
  "asciiLines ls = concat (map (\<lambda>l. ascii l @ [0x0A]) ls)"

text \<open>
  \<^verbatim>\<open>JSON.parse\<close> on the lines and the sidecar used below, and a stand-in for
  \<^verbatim>\<open>JSON.stringify\<close> (the sync writes whatever it returns).
\<close>

definition exampleMessage :: "number option \<Rightarrow> parsed_line" where
  "exampleMessage t = JsonMessage \<lparr> timestamp = t, gitBranch = None, version = None \<rparr>"

definition exampleMetadata :: SessionMetadata where
  "exampleMetadata =
     \<lparr> meta_sessionId = js ''s'', projectName = js ''p - q'', projectPath = Some (js ''p%2Fq''),
       messageCount = 2, firstTimestamp = 3, lastTimestamp = 7, meta_gitBranch = None,
       meta_version = None, syncedAt = 5, sourceFilePath = js ''/c/p%2Fq/s.jsonl'' \<rparr>"

definition exampleLib :: js_lib where
  "exampleLib =
     \<lparr> JSON_parse_message =
         (\<lambda>s. if s = js ''{\"timestamp\":7}'' then Some (exampleMessage (Some 7))
              else if s = js ''{\"timestamp\":3}'' then Some (exampleMessage (Some 3))
              else if s = js ''{}'' then Some (exampleMessage None)
              else if s = js ''null'' then Some JsonNull
              else None),
       JSON_parse_metadata = (\<lambda>s. if s = js ''{\"syncedAt\":5}'' then Some exampleMetadata else None),
       JSON_stringify_metadata = (\<lambda>m. js ''{}''),
       maxArguments = 100000 \<rparr>"

definition exampleWorld :: "(jsstring \<Rightarrow> fs_file option) \<Rightarrow> world" where
  "exampleWorld fs =
     \<lparr> files = fs, faults = (\<lambda>op p. None), clock = 10, vaultBasePath = Some (js ''/v''),
       obsidianStoragePath = js ''C'', lastSyncTime = 0, syncInProgress = {} \<rparr>"

text \<open>
  A log of three lines whose second line is not JSON; the sidecar of an earlier sync at
  time 5; a log with a byte that is not UTF-8.
\<close>

definition threeLines :: "byte list" where
  "threeLines = asciiLines [''{\"timestamp\":7}'', ''not json'', ''{\"timestamp\":3}'']"

definition exampleSidecar :: fs_file where
  "exampleSidecar = \<lparr> content = ascii ''{\"syncedAt\":5}'', mtimeMs = 5 \<rparr>"

definition brokenLog :: "byte list" where
  "brokenLog = [0x7B, 0x7D, 0x0A, 0xFF, 0x0A]"



text \<open>
  Worlds: the log never synced; the log synced at time 5 and last modified at \<open>t\<close>; the
  sidecar of a log that is gone; an empty log with and without a sidecar; the log with
  the byte that is not UTF-8.
\<close>

definition freshWorld :: world where
  "freshWorld = exampleWorld [exampleSource \<mapsto> \<lparr>content = threeLines, mtimeMs = 5\<rparr>]"

definition syncedWorld :: "number \<Rightarrow> world" where
  "syncedWorld t =
     exampleWorld [exampleSource \<mapsto> \<lparr>content = threeLines, mtimeMs = t\<rparr>,
                   metaFile exampleTargets \<mapsto> exampleSidecar]"

definition orphanWorld :: world where
  "orphanWorld = exampleWorld [metaFile exampleTargets \<mapsto> exampleSidecar]"

definition emptySyncedWorld :: world where
  "emptySyncedWorld =
     exampleWorld [exampleSource \<mapsto> \<lparr>content = [], mtimeMs = 5\<rparr>,
                   metaFile exampleTargets \<mapsto> exampleSidecar]"

definition emptyWorld :: world where
  "emptyWorld = exampleWorld [exampleSource \<mapsto> \<lparr>content = [], mtimeMs = 5\<rparr>]"

definition brokenWorld :: world where
  "brokenWorld = exampleWorld [exampleSource \<mapsto> \<lparr>content = brokenLog, mtimeMs = 5\<rparr>]"



text \<open>An engine with no call in flight.\<close>

definition idleEngine :: engine where
  "idleEngine = \<lparr> engine_world = freshWorld, active = [], results = [] \<rparr>"

text \<open>A burst of changes of one file, with a change of another file in between.\<close>

definition burstExample :: "(number \<times> jsstring) list" where
  "burstExample = [(0, js ''a''), (400, js ''a''), (900, js ''b''), (1300, js ''a'')]"

section \<open>Properties of the filename sanitizer\<close>

lemma wsNorm_replaceRuns: "wsNorm b (replaceRuns isWhiteSpace [0x20] b s)"
  by (induction s arbitrary: b) (auto simp: isWhiteSpace_def)

lemma wsNorm_fix: "wsNorm b s \<Longrightarrow> replaceRuns isWhiteSpace [0x20] b s = s"
  by (induction s arbitrary: b) (auto split: if_splits)

lemma wsNorm_weaken: "wsNorm b s \<Longrightarrow> wsNorm False s"
  by (cases s) (auto split: if_splits)

lemma wsNorm_take: "wsNorm b s \<Longrightarrow> wsNorm b (take n s)"
proof (induction s arbitrary: b n)
  case Nil then show ?case by simp
next
  case (Cons c cs) then show ?case by (cases n) (auto split: if_splits)
qed

lemma wsNorm_dropWhile: "wsNorm b s \<Longrightarrow> wsNorm b' (dropWhile isWhiteSpace s)"
proof (induction s arbitrary: b)
  case Nil then show ?case by simp
next
  case (Cons c cs) then show ?case by (auto split: if_splits)
qed

lemma trimEnd_prefix: "\<exists>n. trimEnd s = take n s"
proof -
  have "rev s = takeWhile isWhiteSpace (rev s) @ dropWhile isWhiteSpace (rev s)" by simp
  then have "s = rev (dropWhile isWhiteSpace (rev s)) @ rev (takeWhile isWhiteSpace (rev s))"
    by (metis rev_append rev_rev_ident)
  then have "s = trimEnd s @ rev (takeWhile isWhiteSpace (rev s))" by (simp add: trimEnd_def)
  then have "take (length (trimEnd s)) s = trimEnd s" by (metis append_eq_conv_conj)
  then show ?thesis by metis
qed

lemma dropWhile_id_iff: "dropWhile P xs = xs \<longleftrightarrow> xs = [] \<or> \<not> P (hd xs)"
proof (cases xs)
  case Nil then show ?thesis by simp
next
  case (Cons a list)
  have "length (dropWhile P list) \<le> length list" by (rule length_dropWhile_le)
  then have "dropWhile P list \<noteq> a # list" by auto
  then show ?thesis using Cons by auto
qed

lemma trimEnd_id_iff: "trimEnd s = s \<longleftrightarrow> s = [] \<or> \<not> isWhiteSpace (last s)"
proof (cases "s = []")
  case True then show ?thesis by (simp add: trimEnd_def)
next
  case False
  then have h: "hd (rev s) = last s" by (simp add: hd_rev)
  have "trimEnd s = s \<longleftrightarrow> dropWhile isWhiteSpace (rev s) = rev s"
    unfolding trimEnd_def by (metis rev_rev_ident)
  also have "\<dots> \<longleftrightarrow> \<not> isWhiteSpace (hd (rev s))"
    using False by (simp add: dropWhile_id_iff)
  finally show ?thesis using False h by simp
qed

lemma trimEnd_last: "trimEnd s = [] \<or> \<not> isWhiteSpace (last (trimEnd s))"
proof (cases "trimEnd s = []")
  case True then show ?thesis by simp
next
  case False
  then have ne: "dropWhile isWhiteSpace (rev s) \<noteq> []" by (simp add: trimEnd_def)
  then have "\<not> isWhiteSpace (hd (dropWhile isWhiteSpace (rev s)))" by (rule hd_dropWhile)
  moreover have "last (trimEnd s) = hd (dropWhile isWhiteSpace (rev s))"
    using ne by (simp add: trimEnd_def last_rev)
  ultimately show ?thesis by simp
qed

lemma trimEnd_idem: "trimEnd (trimEnd s) = trimEnd s"
  using trimEnd_last [of s] by (simp add: trimEnd_id_iff)

lemma js_space: "js '' '' = [0x20]" by (simp add: js_def)

lemma isWhiteSpace_space: "isWhiteSpace 0x20" by (simp add: isWhiteSpace_def)

lemma not_invalid_dash: "\<not> isInvalidFileChar (of_char CHR ''-'')"
  by (simp add: isInvalidFileChar_def js_def)

lemma not_invalid_space: "\<not> isInvalidFileChar 0x20"
  by (simp add: isInvalidFileChar_def js_def)

lemma replaceInvalid_free: "\<forall>c \<in> set (replaceInvalid s). \<not> isInvalidFileChar c"
  using not_invalid_dash by (auto simp: replaceInvalid_def)

lemma replaceInvalid_fix: "\<forall>c \<in> set s. \<not> isInvalidFileChar c \<Longrightarrow> replaceInvalid s = s"
  by (induction s) (auto simp: replaceInvalid_def)

lemma set_replaceRuns: "set (replaceRuns P r b s) \<subseteq> set s \<union> set r"
  by (induction s arbitrary: b) auto

lemma collapse_free:
  assumes "\<forall>c \<in> set s. \<not> isInvalidFileChar c"
  shows "\<forall>c \<in> set (collapseWhitespace s). \<not> isInvalidFileChar c"
proof
  fix c assume "c \<in> set (collapseWhitespace s)"
  then have "c \<in> set s \<union> {0x20}"
    using set_replaceRuns [of isWhiteSpace "[0x20]" False s]
    by (auto simp: collapseWhitespace_def js_space)
  then show "\<not> isInvalidFileChar c" using assms not_invalid_space by auto
qed

lemma trimStart_suffix: "set (trimStart s) \<subseteq> set s"
  unfolding trimStart_def by (auto dest: set_dropWhileD)

lemma set_trimEnd: "set (trimEnd s) \<subseteq> set s"
proof -
  obtain n where "trimEnd s = take n s" using trimEnd_prefix by blast
  then show ?thesis by (simp add: set_take_subset)
qed

lemma set_trim: "set (trim s) \<subseteq> set s"
  unfolding trim_def using set_trimEnd trimStart_suffix by blast

lemma wsNorm_collapse: "wsNorm False (collapseWhitespace s)"
  unfolding collapseWhitespace_def js_space by (rule wsNorm_replaceRuns)

lemma collapse_fix: "wsNorm False s \<Longrightarrow> collapseWhitespace s = s"
  unfolding collapseWhitespace_def js_space by (rule wsNorm_fix)

lemma wsNorm_trimEnd: "wsNorm b s \<Longrightarrow> wsNorm b (trimEnd s)"
proof -
  assume a: "wsNorm b s"
  obtain n where "trimEnd s = take n s" using trimEnd_prefix by blast
  then show ?thesis using a by (simp add: wsNorm_take)
qed

lemma wsNorm_trim: "wsNorm b s \<Longrightarrow> wsNorm False (trim s)"
  unfolding trim_def trimStart_def by (intro wsNorm_trimEnd wsNorm_dropWhile)

lemma trimStart_hd: "trimStart s = [] \<or> \<not> isWhiteSpace (hd (trimStart s))"
  unfolding trimStart_def using hd_dropWhile by blast

lemma trimStart_fix: "s = [] \<or> \<not> isWhiteSpace (hd s) \<Longrightarrow> trimStart s = s"
  by (simp add: trimStart_def dropWhile_id_iff)

lemma hd_take': "take n s \<noteq> [] \<Longrightarrow> hd (take n s) = hd s"
  by (cases s; cases n) auto

lemma trim_hd: "trim s = [] \<or> \<not> isWhiteSpace (hd (trim s))"
proof (cases "trim s = []")
  case True then show ?thesis by simp
next
  case False
  obtain n where n: "trim s = take n (trimStart s)"
    unfolding trim_def using trimEnd_prefix by blast
  then have "hd (trim s) = hd (trimStart s)"
    using False by (simp add: hd_take')
  moreover have "trimStart s \<noteq> []" using False n by auto
  ultimately show ?thesis using trimStart_hd [of s] by simp
qed

text \<open>The cleaned, not yet truncated name.\<close>

lemma sanitize_props:
  fixes x
  defines "y \<equiv> sanitizeFileName x"
  shows "\<forall>c \<in> set y. \<not> isInvalidFileChar c" and "wsNorm False y"
    and "y = [] \<or> \<not> isWhiteSpace (hd y)" and "length y \<le> 255"
proof -
  let ?p = "trim (collapseWhitespace (replaceInvalid x))"
  have y: "y = take 255 ?p" by (simp add: y_def sanitizeFileName_def)
  have "set y \<subseteq> set (collapseWhitespace (replaceInvalid x))"
    unfolding y using set_trim set_take_subset by fast
  then show "\<forall>c \<in> set y. \<not> isInvalidFileChar c"
    using collapse_free [OF replaceInvalid_free, of x] by blast
  show "wsNorm False y" unfolding y
    by (intro wsNorm_take wsNorm_trim [where b = False] wsNorm_collapse)
  show "y = [] \<or> \<not> isWhiteSpace (hd y)"
  proof (cases "y = []")
    case True then show ?thesis by simp
  next
    case False
    then have "hd y = hd ?p" and "?p \<noteq> []" unfolding y by (simp add: hd_take', auto)
    then show ?thesis using trim_hd [of "collapseWhitespace (replaceInvalid x)"] by simp
  qed
  show "length y \<le> 255" by (simp add: y)
qed

lemma sanitize_twice: "sanitizeFileName (sanitizeFileName x) = trimEnd (sanitizeFileName x)"
proof -
  let ?y = "sanitizeFileName x"
  note p = sanitize_props [of x]
  have 1: "replaceInvalid ?y = ?y" using p(1) by (rule replaceInvalid_fix)
  have 2: "collapseWhitespace ?y = ?y" using p(2) by (rule collapse_fix)
  have 3: "trimStart ?y = ?y" using p(3) by (rule trimStart_fix)
  obtain n where "trimEnd ?y = take n ?y" using trimEnd_prefix by blast
  then have "length (trimEnd ?y) \<le> length ?y" by simp
  then have 4: "take 255 (trimEnd ?y) = trimEnd ?y" using p(4) by simp
  have "sanitizeFileName ?y = take 255 (trim (collapseWhitespace (replaceInvalid ?y)))"
    by (simp add: sanitizeFileName_def)
  also have "\<dots> = take 255 (trimEnd ?y)" by (simp add: 1 2 3 trim_def)
  finally show ?thesis using 4 by simp
qed

lemma sanitize_short:
  assumes "length (trim (collapseWhitespace (replaceInvalid x))) \<le> 255"
  shows "sanitizeFileName (sanitizeFileName x) = sanitizeFileName x"
proof -
  have "sanitizeFileName x = trim (collapseWhitespace (replaceInvalid x))"
    using assms by (simp add: sanitizeFileName_def)
  then have "trimEnd (sanitizeFileName x) = sanitizeFileName x"
    by (simp add: trim_def trimEnd_idem)
  then show ?thesis by (simp add: sanitize_twice)
qed

lemma plain_fix:
  assumes "\<forall>c \<in> set s. \<not> isInvalidFileChar c" "wsNorm False s"
    "s = [] \<or> \<not> isWhiteSpace (hd s)" "s = [] \<or> \<not> isWhiteSpace (last s)"
  shows "sanitizeFileName s = take 255 s"
proof -
  have "trimEnd s = s" using assms(4) by (simp add: trimEnd_id_iff)
  then show ?thesis using assms(1-3)
    by (simp add: sanitizeFileName_def replaceInvalid_fix collapse_fix trim_def trimStart_fix)
qed

lemma wsNorm_plain_append:
  "\<forall>c \<in> set xs. \<not> isWhiteSpace c \<Longrightarrow> xs \<noteq> [] \<Longrightarrow> wsNorm b (xs @ ys) = wsNorm False ys"
proof (induction xs arbitrary: b)
  case Nil then show ?case by simp
next
  case (Cons a xs) then show ?case by (cases "xs = []") auto
qed

lemma not_ws_a: "\<not> isWhiteSpace 0x61" "\<not> isWhiteSpace 0x62" by (simp_all add: isWhiteSpace_def)
lemma not_inv_a: "\<not> isInvalidFileChar 0x61" "\<not> isInvalidFileChar 0x62" by (simp_all add: isInvalidFileChar_def js_def)

lemma sanitize_long:
  "sanitizeFileName (replicate 254 0x61 @ [0x20, 0x62]) = replicate 254 0x61 @ [0x20]"
proof -
  let ?x = "replicate 254 (0x61 :: jschar) @ [0x20, 0x62]"
  have "sanitizeFileName ?x = take 255 ?x"
  proof (rule plain_fix)
    show "\<forall>c \<in> set ?x. \<not> isInvalidFileChar c" using not_inv_a not_invalid_space by auto
    show "wsNorm False ?x" using not_ws_a by (subst wsNorm_plain_append) (auto simp: isWhiteSpace_space)
    show "?x = [] \<or> \<not> isWhiteSpace (hd ?x)" using not_ws_a by (simp add: hd_append)
    show "?x = [] \<or> \<not> isWhiteSpace (last ?x)" using not_ws_a by simp
  qed
  then show ?thesis by simp
qed


text \<open>
  Claim C4, as the code has it. Applying the sanitizer twice is the same as applying it
  once exactly when the sanitized name does not end in a whitespace character, which is
  the case whenever the cleaned name is at most 255 code units long, so that the
  truncation cuts nothing off. (A cut right after a space leaves a trailing space, which
  the second application trims.)
\<close>

theorem sanitizeFileName_idempotent_iff:
  "(sanitizeFileName (sanitizeFileName x) = sanitizeFileName x
      \<longleftrightarrow> sanitizeFileName x = [] \<or> \<not> isWhiteSpace (last (sanitizeFileName x)))
   \<and> (length (trim (collapseWhitespace (replaceInvalid x))) \<le> 255
      \<longrightarrow> sanitizeFileName (sanitizeFileName x) = sanitizeFileName x)"
  using sanitize_short [of x] by (simp add: sanitize_twice trimEnd_id_iff)

lemmas sanitize_eval = sanitizeFileName_def trim_def trimStart_def trimEnd_def
  collapseWhitespace_def replaceInvalid_def isInvalidFileChar_def isWhiteSpace_def js_def

theorem sanitizeFileName_idempotent_witness:
  "length (trim (collapseWhitespace (replaceInvalid (js ''  my<proj>   name? '')))) \<le> 255
   \<and> sanitizeFileName (js ''  my<proj>   name? '') = js ''my-proj- name-''
   \<and> sanitizeFileName (sanitizeFileName (js ''  my<proj>   name? ''))
       = sanitizeFileName (js ''  my<proj>   name? '')"
  using sanitizeFileName_idempotent_iff [of "js ''  my<proj>   name? ''"]
  by (simp add: sanitize_eval)

text \<open>
  Claim C4 as stated fails at the truncation limit: 254 letters, a space and one more
  letter are cut after the space, and the second application removes that space.
\<close>

theorem sanitizeFileName_not_idempotent:
  "sanitizeFileName (sanitizeFileName (replicate 254 0x61 @ [0x20, 0x62]))
     \<noteq> sanitizeFileName (replicate 254 0x61 @ [0x20, 0x62])"
proof -
  have "sanitizeFileName (sanitizeFileName (replicate 254 0x61 @ [0x20, 0x62]))
          = trimEnd (sanitizeFileName (replicate 254 0x61 @ [0x20, 0x62]))"
    by (rule sanitize_twice)
  also have "\<dots> = trimEnd (replicate 254 0x61 @ [0x20])"
    by (simp only: sanitize_long)
  also have "\<dots> = replicate 254 0x61"
    using not_ws_a by (simp add: trimEnd_def isWhiteSpace_space)
  finally show ?thesis by (simp add: sanitize_long)
qed

section \<open>Properties of the project name decoder\<close>

declare replaceSeparatorRuns_spec.simps [simp del]

lemma replaceRuns_inRun: "replaceRuns P r True s = replaceRuns P r False (dropWhile P s)"
  by (induction s) auto


lemma replaceRuns_spec: "replaceRuns isPathSeparator (js '' - '') False s = replaceSeparatorRuns_spec s"
proof (induction s rule: replaceSeparatorRuns_spec.induct)
  case (1 s)
  show ?case
  proof (cases s)
    case Nil then show ?thesis by (simp add: replaceSeparatorRuns_spec.simps)
  next
    case (Cons c cs)
    show ?thesis
    proof (cases "isPathSeparator c")
      case True
      have "replaceRuns isPathSeparator (js '' - '') False s
            = js '' - '' @ replaceRuns isPathSeparator (js '' - '') False (dropWhile isPathSeparator s)"
        using True Cons by (simp add: replaceRuns_inRun)
      also have "\<dots> = js '' - '' @ replaceSeparatorRuns_spec (dropWhile isPathSeparator s)"
        using 1(1) True Cons by simp
      also have "\<dots> = replaceSeparatorRuns_spec s"
        using True Cons by (subst (2) replaceSeparatorRuns_spec.simps) simp
      finally show ?thesis .
    next
      case False
      have pl: "\<And>t. replaceRuns isPathSeparator (js '' - '') False t
                 = takeWhile (\<lambda>c. \<not> isPathSeparator c) t
                   @ replaceRuns isPathSeparator (js '' - '') False (dropWhile (\<lambda>c. \<not> isPathSeparator c) t)"
      proof -
        fix t show "replaceRuns isPathSeparator (js '' - '') False t
                 = takeWhile (\<lambda>c. \<not> isPathSeparator c) t
                   @ replaceRuns isPathSeparator (js '' - '') False (dropWhile (\<lambda>c. \<not> isPathSeparator c) t)"
          by (induction t) auto
      qed
      have "replaceRuns isPathSeparator (js '' - '') False s
             = takeWhile (\<lambda>c. \<not> isPathSeparator c) s
                   @ replaceSeparatorRuns_spec (dropWhile (\<lambda>c. \<not> isPathSeparator c) s)"
        using 1(2) False Cons by (subst pl) simp
      also have "\<dots> = replaceSeparatorRuns_spec s"
        using False Cons by (subst (2) replaceSeparatorRuns_spec.simps) simp
      finally show ?thesis .
    qed
  qed
qed


lemma set_replaceRuns_class: "set (replaceRuns P r b s) \<subseteq> {c \<in> set s. \<not> P c} \<union> set r"
  by (induction s arbitrary: b) auto

lemma cleaned_no_separator:
  "c \<in> set (replaceRuns isPathSeparator (js '' - '') False s) \<Longrightarrow> \<not> isPathSeparator c"
  using set_replaceRuns_class [of isPathSeparator "js '' - ''" False s]
  by (auto simp: js_def isPathSeparator_def)

lemma sentinel_no_separator: "c \<in> set (js ''Unknown Project'') \<Longrightarrow> \<not> isPathSeparator c"
  by (auto simp: js_def isPathSeparator_def)

lemmas decode_eval = decodeProjectName_def decodeURIComponent_def js_def hexDigit_def
  isPathSeparator_def utf8_lead_def utf16_encode_def

text \<open>
  Claim C9. \<open>decodeProjectName\<close> is a total function: whatever
  \<^verbatim>\<open>decodeURIComponent\<close> throws is caught, and the encoded name is returned
  unchanged. When the name decodes, the result is the decoded name without its leading
  separators and with every run of separators replaced by \<^verbatim>\<open>" - "\<close> (so that no
  separator is left), or the sentinel when nothing is left. The example of the
  specification evaluates as stated.
\<close>

theorem decodeProjectName_correct:
  "(decodeURIComponent encoded = Inl err \<longrightarrow> decodeProjectName encoded = encoded)
   \<and> (decodeURIComponent encoded = Inr decoded \<longrightarrow>
        decodeProjectName encoded = cleanProjectName_spec decoded
        \<and> (\<forall>c \<in> set (decodeProjectName encoded). \<not> isPathSeparator c)
        \<and> (replaceSeparatorRuns_spec (dropWhile isPathSeparator decoded) = []
             \<longrightarrow> decodeProjectName encoded = js ''Unknown Project''))
   \<and> decodeProjectName (js ''home%2Fuser%2Fproj'') = js ''home - user - proj''"
proof (intro conjI impI)
  assume "decodeURIComponent encoded = Inl err"
  then show "decodeProjectName encoded = encoded" by (simp add: decodeProjectName_def)
next
  assume d: "decodeURIComponent encoded = Inr decoded"
  then show eq: "decodeProjectName encoded = cleanProjectName_spec decoded"
    by (simp add: decodeProjectName_def cleanProjectName_spec_def replaceRuns_spec)
  show "\<forall>c \<in> set (decodeProjectName encoded). \<not> isPathSeparator c"
    using d cleaned_no_separator sentinel_no_separator
    by (auto simp: decodeProjectName_def Let_def)
  assume "replaceSeparatorRuns_spec (dropWhile isPathSeparator decoded) = []"
  then show "decodeProjectName encoded = js ''Unknown Project''"
    using eq by (simp add: cleanProjectName_spec_def)
next
  show "decodeProjectName (js ''home%2Fuser%2Fproj'') = js ''home - user - proj''"
    by (simp add: decode_eval)
qed

theorem decodeProjectName_witness:
  "decodeURIComponent (js ''100%'') = Inl URIError
   \<and> decodeProjectName (js ''100%'') = js ''100%''
   \<and> decodeURIComponent (js ''%2Fhome%2F%2Fuser'') = Inr (js ''/home//user'')
   \<and> decodeProjectName (js ''%2Fhome%2F%2Fuser'') = cleanProjectName_spec (js ''/home//user'')
   \<and> decodeProjectName (js ''%2Fhome%2F%2Fuser'') = js ''home - user''
   \<and> decodeURIComponent (js ''%2F'') = Inr (js ''/'')
   \<and> decodeProjectName (js ''%2F'') = js ''Unknown Project''"
proof -
  have e1: "decodeURIComponent (js ''100%'') = Inl URIError"
    by (simp add: decode_eval)
  have e2: "decodeURIComponent (js ''%2Fhome%2F%2Fuser'') = Inr (js ''/home//user'')"
    by (simp add: decode_eval)
  have e3: "decodeURIComponent (js ''%2F'') = Inr (js ''/'')"
    by (simp add: decode_eval)
  have v2: "decodeProjectName (js ''%2Fhome%2F%2Fuser'') = js ''home - user''"
    by (simp add: decode_eval)
  have v3: "decodeProjectName (js ''%2F'') = js ''Unknown Project''"
    by (simp add: decode_eval)
  from decodeProjectName_correct [of "js ''100%''" URIError] e1
  have w1: "decodeProjectName (js ''100%'') = js ''100%''" by blast
  from decodeProjectName_correct [of "js ''%2Fhome%2F%2Fuser''" _ "js ''/home//user''"] e2
  have w2: "decodeProjectName (js ''%2Fhome%2F%2Fuser'') = cleanProjectName_spec (js ''/home//user'')"
    by blast
  show ?thesis using e1 w1 e2 w2 v2 e3 v3 by blast
qed

section \<open>Well-formed UTF-8 survives decoding and encoding\<close>

text \<open>Bytes and code units as numbers.\<close>

lemma unat_byte_lt: "unat (b :: byte) < 256"
  using unsigned_less [of b, where 'a = nat] by simp

lemma unat16: "n < 65536 \<Longrightarrow> unat (of_nat n :: jschar) = n"
  by (simp add: unat_of_nat)

lemma byte_eq: "n = unat b \<Longrightarrow> (of_nat n :: byte) = b"
  by simp

text \<open>The decoder on a well-formed sequence.\<close>

lemma dec_ascii:
  "b < 0x80 \<Longrightarrow> utf8_decode_from 0 0 0x80 0xBF (b # bs) = ucast b # utf8_decode_from 0 0 0x80 0xBF bs"
  by simp

lemma dec_lead:
  "\<not> b < 0x80 \<Longrightarrow> utf8_lead b = Some (n, lo, hi, cp0) \<Longrightarrow>
   utf8_decode_from 0 0 0x80 0xBF (b # bs) = utf8_decode_from n cp0 lo hi bs"
  by simp

lemma dec_last:
  "lo \<le> c \<Longrightarrow> c \<le> hi \<Longrightarrow>
   utf8_decode_from 1 cp lo hi (c # bs)
     = utf16_encode (cp * 64 + (unat c - 0x80)) @ utf8_decode_from 0 0 0x80 0xBF bs"
  by simp

lemma dec_cont:
  "n \<noteq> 0 \<Longrightarrow> n \<noteq> 1 \<Longrightarrow> lo \<le> c \<Longrightarrow> c \<le> hi \<Longrightarrow>
   utf8_decode_from n cp lo hi (c # bs)
     = utf8_decode_from (n - 1) (cp * 64 + (unat c - 0x80)) 0x80 0xBF bs"
  by simp

lemma dec_cont2:
  "lo \<le> c \<Longrightarrow> c \<le> hi \<Longrightarrow>
   utf8_decode_from 2 cp lo hi (c # bs)
     = utf8_decode_from 1 (cp * 64 + (unat c - 0x80)) 0x80 0xBF bs"
  by simp

lemma dec_cont3:
  "lo \<le> c \<Longrightarrow> c \<le> hi \<Longrightarrow>
   utf8_decode_from 3 cp lo hi (c # bs)
     = utf8_decode_from 2 (cp * 64 + (unat c - 0x80)) 0x80 0xBF bs"
  by simp

lemma lead_cases:
  assumes "utf8_lead b = Some (n, lo, hi, cp0)"
  shows "(n = 1 \<and> 0xC2 \<le> b \<and> b \<le> 0xDF \<and> lo = 0x80 \<and> hi = 0xBF \<and> cp0 = unat b - 0xC0)
       \<or> (n = 2 \<and> 0xE0 \<le> b \<and> b \<le> 0xEF \<and> lo = (if b = 0xE0 then 0xA0 else 0x80)
            \<and> hi = (if b = 0xED then 0x9F else 0xBF) \<and> cp0 = unat b - 0xE0)
       \<or> (n = 3 \<and> 0xF0 \<le> b \<and> b \<le> 0xF4 \<and> lo = (if b = 0xF0 then 0x90 else 0x80)
            \<and> hi = (if b = 0xF4 then 0x8F else 0xBF) \<and> cp0 = unat b - 0xF0)"
  using assms by (auto simp: utf8_lead_def split: if_splits)

text \<open>The encoder on the code units of a scalar value.\<close>

lemma enc_ascii: "b < 0x80 \<Longrightarrow> utf8_encode (ucast b # s) = (b :: byte) # utf8_encode s"
proof -
  assume a: "b < 0x80"
  then have u: "unat b < 128" by (simp add: word_less_nat_alt)
  have "unat b < 2 ^ 16" using unat_byte_lt [of b] by simp
  then have e: "unat (ucast b :: jschar) = unat b"
    by (simp add: unsigned_ucast_eq take_bit_nat_eq_self)
  have "\<not> isHighSurrogate (ucast b)" "\<not> isLowSurrogate (ucast b)"
    using u e by (simp_all add: isHighSurrogate_def isLowSurrogate_def word_le_nat_alt)
  then show ?thesis using u e by (simp add: utf8_bytes_def)
qed

lemma enc_bmp:
  assumes "cp < 0x10000" and "cp < 0xD800 \<or> 0xDFFF < cp"
  shows "utf8_encode (utf16_encode cp @ s) = utf8_bytes cp @ utf8_encode s"
proof -
  have u: "unat (of_nat cp :: jschar) = cp" using assms(1) by (simp add: unat16)
  have "\<not> isHighSurrogate (of_nat cp)" "\<not> isLowSurrogate (of_nat cp)"
    using assms(2) u by (auto simp: isHighSurrogate_def isLowSurrogate_def word_le_nat_alt)
  then show ?thesis using assms(1) u by (simp add: utf16_encode_def)
qed

lemma enc_supp:
  assumes "0x10000 \<le> cp" and "cp < 0x110000"
  shows "utf8_encode (utf16_encode cp @ s) = utf8_bytes cp @ utf8_encode s"
proof -
  let ?h = "0xD800 + (cp - 0x10000) div 0x400" and ?l = "0xDC00 + (cp - 0x10000) mod 0x400"
  have hb: "0xD800 \<le> ?h" "?h \<le> 0xDBFF" using assms by simp_all
  have lb: "0xDC00 \<le> ?l" "?l \<le> 0xDFFF" by simp_all
  have uh: "unat (of_nat ?h :: jschar) = ?h" by (rule unat16) (use hb in simp)
  have ul: "unat (of_nat ?l :: jschar) = ?l" by (rule unat16) (use lb in simp)
  have h: "isHighSurrogate (of_nat ?h)"
    using hb by (simp only: isHighSurrogate_def word_le_nat_alt uh) simp
  have l: "isLowSurrogate (of_nat ?l)"
    using lb by (simp only: isLowSurrogate_def word_le_nat_alt ul) simp
  have recombine: "0x10000 + (?h - 0xD800) * 0x400 + (?l - 0xDC00) = cp"
    using assms by simp
  have "utf8_encode (of_nat ?h # of_nat ?l # s)
          = utf8_bytes (0x10000 + (unat (of_nat ?h :: jschar) - 0xD800) * 0x400
                          + (unat (of_nat ?l :: jschar) - 0xDC00)) @ utf8_encode s"
    using h l by simp
  also have "\<dots> = utf8_bytes cp @ utf8_encode s"
    by (simp only: uh ul recombine)
  finally show ?thesis using assms(1) by (simp add: utf16_encode_def)
qed


text \<open>The bytes of the code point that a well-formed sequence encodes.\<close>

lemma split2:
  fixes a c1 :: nat
  assumes "c1 < 64"
  shows "(a * 64 + c1) mod 64 = c1" "(a * 64 + c1) div 64 = a"
  using assms by simp_all

lemma split3:
  fixes a c1 c2 :: nat
  assumes "c1 < 64" "c2 < 64"
  shows "((a * 64 + c1) * 64 + c2) mod 64 = c2"
    "((a * 64 + c1) * 64 + c2) div 64 mod 64 = c1"
    "((a * 64 + c1) * 64 + c2) div 4096 = a"
proof -
  let ?n = "(a * 64 + c1) * 64 + c2"
  show "?n mod 64 = c2" by (rule split2(1) [OF assms(2)])
  have d: "?n div 64 = a * 64 + c1" by (rule split2(2) [OF assms(2)])
  show "?n div 64 mod 64 = c1" unfolding d by (rule split2(1) [OF assms(1)])
  have "?n div (64 * 64) = ?n div 64 div 64" by (rule div_mult2_eq)
  also have "\<dots> = a" unfolding d by (rule split2(2) [OF assms(1)])
  finally show "?n div 4096 = a" by simp
qed

lemma split4:
  fixes a c1 c2 c3 :: nat
  assumes "c1 < 64" "c2 < 64" "c3 < 64"
  shows "(((a * 64 + c1) * 64 + c2) * 64 + c3) mod 64 = c3"
    "(((a * 64 + c1) * 64 + c2) * 64 + c3) div 64 mod 64 = c2"
    "(((a * 64 + c1) * 64 + c2) * 64 + c3) div 4096 mod 64 = c1"
    "(((a * 64 + c1) * 64 + c2) * 64 + c3) div 262144 = a"
proof -
  let ?m = "(a * 64 + c1) * 64 + c2"
  let ?n = "?m * 64 + c3"
  show "?n mod 64 = c3" by (rule split2(1) [OF assms(3)])
  have d: "?n div 64 = ?m" by (rule split2(2) [OF assms(3)])
  show "?n div 64 mod 64 = c2" unfolding d by (rule split2(1) [OF assms(2)])
  have "?n div (64 * 64) = ?n div 64 div 64" by (rule div_mult2_eq)
  also have "\<dots> = a * 64 + c1" unfolding d by (rule split2(2) [OF assms(2)])
  finally have d2: "?n div 4096 = a * 64 + c1" by simp
  show "?n div 4096 mod 64 = c1" unfolding d2 by (rule split2(1) [OF assms(1)])
  have "?n div (4096 * 64) = ?n div 4096 div 64" by (rule div_mult2_eq)
  also have "\<dots> = a" unfolding d2 by (rule split2(2) [OF assms(1)])
  finally show "?n div 262144 = a" by simp
qed

text \<open>A byte in a range, as a base and a payload.\<close>

lemma byte_payload:
  fixes b :: byte
  assumes "lo \<le> unat b" "unat b < lo + k"
  obtains a where "a < k" "unat b = lo + a" "unat b - lo = a"
  using assms by (metis add_diff_inverse_nat less_diff_conv2 linorder_not_less add.commute)


lemma continuation_payload:
  assumes "0x80 \<le> c" "c \<le> (0xBF :: byte)"
  obtains k where "k < 64" "unat c = 128 + k" "unat c - 128 = k"
proof -
  have "128 \<le> unat c" "unat c < 128 + 64"
    using assms by (simp_all add: word_le_nat_alt)
  then show ?thesis using byte_payload [of 128 c 64] that by blast
qed

lemma roundtrip2:
  assumes lead: "utf8_lead b = Some (1, lo, hi, cp0)" and c: "lo \<le> c" "c \<le> hi"
  shows "utf8_encode (utf16_encode (cp0 * 64 + (unat c - 0x80)) @ s) = b # c # utf8_encode s"
proof -
  from lead_cases [OF lead]
  have b: "0xC2 \<le> b" "b \<le> 0xDF" and r: "lo = 0x80" "hi = 0xBF" and p: "cp0 = unat b - 0xC0"
    by simp_all
  have "192 \<le> unat b" "unat b < 192 + 32" and b2: "194 \<le> unat b"
    using b by (simp_all add: word_le_nat_alt)
  then obtain a where a: "a < 32" "unat b = 192 + a" "unat b - 192 = a"
    using byte_payload [of 192 b 32] by blast
  obtain k where k: "k < 64" "unat c = 128 + k" "unat c - 128 = k"
    using continuation_payload [of c] c r by blast
  let ?cp = "a * 64 + k"
  have cp: "cp0 * 64 + (unat c - 0x80) = ?cp" using p a k by simp
  have lo: "128 \<le> ?cp" using b2 a(2) by simp
  have hi: "?cp < 2048" using a(1) k(1) by simp
  have "utf8_bytes ?cp = [of_nat (0xC0 + ?cp div 64), of_nat (0x80 + ?cp mod 64)]"
    using lo hi by (simp add: utf8_bytes_def)
  also have "\<dots> = [of_nat (unat b), of_nat (unat c)]"
    by (simp only: split2 [OF k(1)] a(2) k(2))
  finally have bytes: "utf8_bytes ?cp = [b, c]" by simp
  have "utf8_encode (utf16_encode ?cp @ s) = utf8_bytes ?cp @ utf8_encode s"
    by (rule enc_bmp) (use hi in simp_all)
  then show ?thesis by (simp only: cp bytes) simp
qed


lemma roundtrip3:
  assumes lead: "utf8_lead b = Some (2, lo, hi, cp0)" and c1: "lo \<le> c1" "c1 \<le> hi"
    and c2: "isContinuation c2"
  shows "utf8_encode (utf16_encode ((cp0 * 64 + (unat c1 - 0x80)) * 64 + (unat c2 - 0x80)) @ s)
           = b # c1 # c2 # utf8_encode s"
proof -
  from lead_cases [OF lead]
  have b: "0xE0 \<le> b" "b \<le> 0xEF" and p: "cp0 = unat b - 0xE0"
    and l: "lo = (if b = 0xE0 then 0xA0 else 0x80)" and h: "hi = (if b = 0xED then 0x9F else 0xBF)"
    by simp_all
  have "224 \<le> unat b" "unat b < 224 + 16"
    using b by (simp_all add: word_le_nat_alt)
  then obtain a where a: "a < 16" "unat b = 224 + a" "unat b - 224 = a"
    using byte_payload [of 224 b 16] by blast
  have e0: "(b = 0xE0) = (a = 0)" and ed: "(b = 0xED) = (a = 13)"
    using a(2) by (simp_all add: word_unat_eq_iff)
  have c1n: "(if a = 0 then 160 else 128) \<le> unat c1" "unat c1 \<le> (if a = 13 then 159 else 191)"
    using c1 l h e0 ed by (auto simp: word_le_nat_alt split: if_splits)
  then have "128 \<le> unat c1" "unat c1 < 128 + 64" by (auto split: if_splits)
  then obtain k1 where k1: "k1 < 64" "unat c1 = 128 + k1" "unat c1 - 128 = k1"
    using byte_payload [of 128 c1 64] by blast
  obtain k2 where k2: "k2 < 64" "unat c2 = 128 + k2" "unat c2 - 128 = k2"
    using continuation_payload [of c2] c2 by (auto simp: isContinuation_def)
  let ?cp = "(a * 64 + k1) * 64 + k2"
  have cp: "(cp0 * 64 + (unat c1 - 0x80)) * 64 + (unat c2 - 0x80) = ?cp" using p a k1 k2 by simp
  have k1b: "a = 0 \<longrightarrow> 32 \<le> k1" "a = 13 \<longrightarrow> k1 \<le> 31"
    using c1n k1(2) by (auto split: if_splits)
  have lo: "2048 \<le> ?cp" using k1b(1) by (cases "a = 0") auto
  have hi: "?cp < 65536" using a(1) k1(1) k2(1) by simp
  have ns: "?cp < 0xD800 \<or> 0xDFFF < ?cp"
  proof (cases "a < 13")
    case True then show ?thesis using k1(1) k2(1) by simp
  next
    case False
    show ?thesis
    proof (cases "a = 13")
      case True then show ?thesis using k1b(2) k2(1) by simp
    next
      case False
      then have "14 \<le> a" using \<open>\<not> a < 13\<close> by simp
      then show ?thesis by simp
    qed
  qed
  have "utf8_bytes ?cp = [of_nat (0xE0 + ?cp div 4096), of_nat (0x80 + ?cp div 64 mod 64),
                           of_nat (0x80 + ?cp mod 64)]"
    using lo hi by (simp add: utf8_bytes_def)
  also have "\<dots> = [of_nat (unat b), of_nat (unat c1), of_nat (unat c2)]"
    by (simp only: split3 [OF k1(1) k2(1)] a(2) k1(2) k2(2))
  finally have bytes: "utf8_bytes ?cp = [b, c1, c2]" by simp
  have "utf8_encode (utf16_encode ?cp @ s) = utf8_bytes ?cp @ utf8_encode s"
    using hi ns by (rule enc_bmp)
  then show ?thesis by (simp only: cp bytes) simp
qed

lemma roundtrip4:
  assumes lead: "utf8_lead b = Some (3, lo, hi, cp0)" and c1: "lo \<le> c1" "c1 \<le> hi"
    and c2: "isContinuation c2" and c3: "isContinuation c3"
  shows "utf8_encode (utf16_encode
            (((cp0 * 64 + (unat c1 - 0x80)) * 64 + (unat c2 - 0x80)) * 64 + (unat c3 - 0x80)) @ s)
           = b # c1 # c2 # c3 # utf8_encode s"
proof -
  from lead_cases [OF lead]
  have b: "0xF0 \<le> b" "b \<le> 0xF4" and p: "cp0 = unat b - 0xF0"
    and l: "lo = (if b = 0xF0 then 0x90 else 0x80)" and h: "hi = (if b = 0xF4 then 0x8F else 0xBF)"
    by simp_all
  have "240 \<le> unat b" "unat b < 240 + 5"
    using b by (simp_all add: word_le_nat_alt)
  then obtain a where a: "a < 5" "unat b = 240 + a" "unat b - 240 = a"
    using byte_payload [of 240 b 5] by blast
  have f0: "(b = 0xF0) = (a = 0)" and f4: "(b = 0xF4) = (a = 4)"
    using a(2) by (simp_all add: word_unat_eq_iff)
  have c1n: "(if a = 0 then 144 else 128) \<le> unat c1" "unat c1 \<le> (if a = 4 then 143 else 191)"
    using c1 l h f0 f4 by (auto simp: word_le_nat_alt split: if_splits)
  then have "128 \<le> unat c1" "unat c1 < 128 + 64" by (auto split: if_splits)
  then obtain k1 where k1: "k1 < 64" "unat c1 = 128 + k1" "unat c1 - 128 = k1"
    using byte_payload [of 128 c1 64] by blast
  obtain k2 where k2: "k2 < 64" "unat c2 = 128 + k2" "unat c2 - 128 = k2"
    using continuation_payload [of c2] c2 by (auto simp: isContinuation_def)
  obtain k3 where k3: "k3 < 64" "unat c3 = 128 + k3" "unat c3 - 128 = k3"
    using continuation_payload [of c3] c3 by (auto simp: isContinuation_def)
  let ?cp = "((a * 64 + k1) * 64 + k2) * 64 + k3"
  have cp: "((cp0 * 64 + (unat c1 - 0x80)) * 64 + (unat c2 - 0x80)) * 64 + (unat c3 - 0x80) = ?cp"
    using p a k1 k2 k3 by simp
  have k1b: "a = 0 \<longrightarrow> 16 \<le> k1" "a = 4 \<longrightarrow> k1 \<le> 15"
    using c1n k1(2) by (auto split: if_splits)
  have lo: "65536 \<le> ?cp" using k1b(1) by (cases "a = 0") auto
  have hi: "?cp < 1114112"
  proof (cases "a = 4")
    case True then show ?thesis using k1b(2) k2(1) k3(1) by simp
  next
    case False
    then have "a \<le> 3" using a(1) by simp
    then show ?thesis using k1(1) k2(1) k3(1) by simp
  qed
  have "utf8_bytes ?cp = [of_nat (0xF0 + ?cp div 262144), of_nat (0x80 + ?cp div 4096 mod 64),
                           of_nat (0x80 + ?cp div 64 mod 64), of_nat (0x80 + ?cp mod 64)]"
    using lo by (simp add: utf8_bytes_def)
  also have "\<dots> = [of_nat (unat b), of_nat (unat c1), of_nat (unat c2), of_nat (unat c3)]"
    by (simp only: split4 [OF k1(1) k2(1) k3(1)] a(2) k1(2) k2(2) k3(2))
  finally have bytes: "utf8_bytes ?cp = [b, c1, c2, c3]" by simp
  have "utf8_encode (utf16_encode ?cp @ s) = utf8_bytes ?cp @ utf8_encode s"
    using lo hi by (intro enc_supp) simp_all
  then show ?thesis by (simp only: cp bytes) simp
qed


text \<open>What a well-formed byte string starts with.\<close>

lemma valid_utf8_cases:
  assumes "valid_utf8 (b # r)"
  shows "(b < 0x80 \<and> valid_utf8 r)
       \<or> (\<not> b < 0x80 \<and> (\<exists>lo hi cp0 c1 r1. utf8_lead b = Some (1, lo, hi, cp0) \<and> r = c1 # r1
              \<and> lo \<le> c1 \<and> c1 \<le> hi \<and> valid_utf8 r1))
       \<or> (\<not> b < 0x80 \<and> (\<exists>lo hi cp0 c1 c2 r2. utf8_lead b = Some (2, lo, hi, cp0)
              \<and> r = c1 # c2 # r2 \<and> lo \<le> c1 \<and> c1 \<le> hi \<and> isContinuation c2 \<and> valid_utf8 r2))
       \<or> (\<not> b < 0x80 \<and> (\<exists>lo hi cp0 c1 c2 c3 r3. utf8_lead b = Some (3, lo, hi, cp0)
              \<and> r = c1 # c2 # c3 # r3 \<and> lo \<le> c1 \<and> c1 \<le> hi \<and> isContinuation c2
              \<and> isContinuation c3 \<and> valid_utf8 r3))"
proof (cases "b < 0x80")
  case True then show ?thesis using assms by simp
next
  case False
  then obtain n lo hi cp0 where lead: "utf8_lead b = Some (n, lo, hi, cp0)"
    using assms by (cases "utf8_lead b") auto
  then have n: "n = 1 \<or> n = 2 \<or> n = 3" using lead_cases [OF lead] by auto
  obtain c1 r1 where r: "r = c1 # r1" using assms False lead by (cases r) auto
  have c1: "lo \<le> c1" "c1 \<le> hi" using assms False lead r by auto
  from n show ?thesis
  proof (elim disjE)
    assume "n = 1"
    then show ?thesis using assms False lead r c1 by auto
  next
    assume n2: "n = 2"
    then obtain c2 r2 where r1: "r1 = c2 # r2" using assms False lead r by (cases r1) auto
    then show ?thesis using assms False lead r c1 n2 by auto
  next
    assume n3: "n = 3"
    then obtain c2 r2 where r1: "r1 = c2 # r2" using assms False lead r by (cases r1) auto
    then obtain c3 r3 where r2: "r2 = c3 # r3" using assms False lead r n3 by (cases r2) auto
    then show ?thesis using assms False lead r r1 c1 n3 by auto
  qed
qed

theorem utf8_roundtrip:
  "valid_utf8 bs \<Longrightarrow> utf8_encode (utf8_decode bs) = bs"
  unfolding utf8_decode_def
proof (induction bs rule: length_induct)
  case (1 bs)
  note IH = "1.IH" [rule_format] and valid = "1.prems"
  show ?case
  proof (cases bs)
    case Nil then show ?thesis by simp
  next
    case (Cons b r)
    from valid_utf8_cases [OF valid [unfolded Cons]] show ?thesis
    proof (elim disjE conjE exE)
      assume a: "b < 0x80" "valid_utf8 r"
      have "utf8_encode (utf8_decode_from 0 0 0x80 0xBF r) = r"
        using IH [of r] a(2) Cons by simp
      then show ?thesis using a(1) Cons by (simp only: dec_ascii enc_ascii)
    next
      fix lo hi cp0 c1 r1
      assume a: "\<not> b < 0x80" "utf8_lead b = Some (1, lo, hi, cp0)" "r = c1 # r1"
        "lo \<le> c1" "c1 \<le> hi" "valid_utf8 r1"
      have ih: "utf8_encode (utf8_decode_from 0 0 0x80 0xBF r1) = r1"
        using IH [of r1] a(3,6) Cons by simp
      have "utf8_decode_from 0 0 0x80 0xBF bs
              = utf16_encode (cp0 * 64 + (unat c1 - 0x80)) @ utf8_decode_from 0 0 0x80 0xBF r1"
        unfolding Cons a(3) by (simp only: dec_lead [OF a(1,2)] dec_last [OF a(4,5)])
      then show ?thesis using roundtrip2 [OF a(2,4,5)] ih Cons a(3) by simp
    next
      fix lo hi cp0 c1 c2 r2
      assume a: "\<not> b < 0x80" "utf8_lead b = Some (2, lo, hi, cp0)" "r = c1 # c2 # r2"
        "lo \<le> c1" "c1 \<le> hi" "isContinuation c2" "valid_utf8 r2"
      have ih: "utf8_encode (utf8_decode_from 0 0 0x80 0xBF r2) = r2"
        using IH [of r2] a(3,7) Cons by simp
      have c2: "0x80 \<le> c2" "c2 \<le> 0xBF" using a(6) by (simp_all add: isContinuation_def)
      have "utf8_decode_from 0 0 0x80 0xBF bs
              = utf16_encode ((cp0 * 64 + (unat c1 - 0x80)) * 64 + (unat c2 - 0x80))
                  @ utf8_decode_from 0 0 0x80 0xBF r2"
        unfolding Cons a(3)
        by (simp only: dec_lead [OF a(1,2)] dec_cont2 [OF a(4,5)] dec_last [OF c2])
      then show ?thesis using roundtrip3 [OF a(2,4,5,6)] ih Cons a(3) by simp
    next
      fix lo hi cp0 c1 c2 c3 r3
      assume a: "\<not> b < 0x80" "utf8_lead b = Some (3, lo, hi, cp0)" "r = c1 # c2 # c3 # r3"
        "lo \<le> c1" "c1 \<le> hi" "isContinuation c2" "isContinuation c3" "valid_utf8 r3"
      have ih: "utf8_encode (utf8_decode_from 0 0 0x80 0xBF r3) = r3"
        using IH [of r3] a(3,8) Cons by simp
      have c2: "0x80 \<le> c2" "c2 \<le> 0xBF" using a(6) by (simp_all add: isContinuation_def)
      have c3: "0x80 \<le> c3" "c3 \<le> 0xBF" using a(7) by (simp_all add: isContinuation_def)
      have "utf8_decode_from 0 0 0x80 0xBF bs
              = utf16_encode (((cp0 * 64 + (unat c1 - 0x80)) * 64 + (unat c2 - 0x80)) * 64
                                + (unat c3 - 0x80))
                  @ utf8_decode_from 0 0 0x80 0xBF r3"
        unfolding Cons a(3)
        by (simp only: dec_lead [OF a(1,2)] dec_cont3 [OF a(4,5)] dec_cont2 [OF c2]
            dec_last [OF c3])
      then show ?thesis using roundtrip4 [OF a(2,4,5,6,7)] ih Cons a(3) by simp
    qed
  qed
qed

section \<open>The lines of a file\<close>



























section \<open>Properties of the staleness check\<close>

text \<open>
  Claim C2, as the code has it. \<open>shouldSync\<close> answers yes when there is no sidecar,
  when the sidecar cannot be read or parsed, when the stat of the source fails, and when
  the modification time of the source is strictly greater than the recorded
  \<open>syncedAt\<close>; it answers no in the one remaining case. With \<open>syncedAt = T\<close>, a
  modification time \<open>T\<close> means no sync and \<open>T + 1\<close> means sync.
\<close>

theorem shouldSync_policy:
  "shouldSync L w sourcePath metaFilePath =
     (case readSidecar L w metaFilePath of
        NoSidecar \<Rightarrow> True
      | Unreadable \<Rightarrow> True
      | Unparsable \<Rightarrow> True
      | PriorMetadata md \<Rightarrow>
          (case fs_stat w sourcePath of
             Inl e \<Rightarrow> True
           | Inr mtime \<Rightarrow> mtime > syncedAt md))"
  by (simp add: shouldSync_def shouldSync_try_def readSidecar_def
      split: sum.splits option.splits)

section \<open>Properties of syncSingleFile\<close>

lemma path_normalize_nonempty: "path_normalize p \<noteq> []"
  by (simp add: path_normalize_def Let_def js_def)

lemma path_join_nonempty: "path_join args \<noteq> []"
  by (simp add: path_join_def Let_def path_normalize_nonempty js_def)

lemma jsonlFile_nonempty:
  "getTargetPaths base storage pp = Inr tp \<Longrightarrow> jsonlFile tp \<noteq> []"
  by (auto simp: getTargetPaths_def Let_def path_join_nonempty split: option.splits)

text \<open>The branches of the try block.\<close>

lemma try_path_error:
  "getTargetPaths (vaultBasePath w) (obsidianStoragePath w) (parseClaudePath p) = Inl e \<Longrightarrow>
   syncSingleFile_try L w p = (w, Inl e)"
  by (simp add: syncSingleFile_try_def Let_def)

lemma try_uptodate:
  "getTargetPaths (vaultBasePath w) (obsidianStoragePath w) (parseClaudePath p) = Inr tp \<Longrightarrow>
   \<not> shouldSync L w p (metaFile tp) \<Longrightarrow>
   syncSingleFile_try L w p = (w, Inr (upToDateResult (parseClaudePath p)))"
  by (simp add: syncSingleFile_try_def Let_def)

lemma try_parse_error:
  "getTargetPaths (vaultBasePath w) (obsidianStoragePath w) (parseClaudePath p) = Inr tp \<Longrightarrow>
   shouldSync L w p (metaFile tp) \<Longrightarrow> parseJsonlFile L w p = Inl e \<Longrightarrow>
   syncSingleFile_try L w p = (w, Inl e)"
  by (simp add: syncSingleFile_try_def Let_def)

lemma try_empty:
  "getTargetPaths (vaultBasePath w) (obsidianStoragePath w) (parseClaudePath p) = Inr tp \<Longrightarrow>
   shouldSync L w p (metaFile tp) \<Longrightarrow> parseJsonlFile L w p = Inr [] \<Longrightarrow>
   syncSingleFile_try L w p = (w, Inr (emptyFileResult (parseClaudePath p)))"
  by (simp add: syncSingleFile_try_def Let_def)

lemma try_write:
  "getTargetPaths (vaultBasePath w) (obsidianStoragePath w) (parseClaudePath p) = Inr tp \<Longrightarrow>
   shouldSync L w p (metaFile tp) \<Longrightarrow> parseJsonlFile L w p = Inr msgs \<Longrightarrow> msgs \<noteq> [] \<Longrightarrow>
   syncSingleFile_try L w p = syncSingleFile_write L w p (parseClaudePath p) tp msgs"
  by (simp add: syncSingleFile_try_def Let_def)

text \<open>The second part of the try block ends in an error or in a success.\<close>

lemma write_result:
  "syncSingleFile_write L w p pp tp msgs = (w', Inr r) \<Longrightarrow> r = copiedResult pp tp"
  by (auto simp: syncSingleFile_write_def Let_def split: sum.splits)

text \<open>What the try block returns, and in which branch.\<close>

lemma try_cases:
  assumes "syncSingleFile_try L w p = (w', res)"
  shows "(\<exists>e. res = Inl e)
       \<or> (\<exists>tp. getTargetPaths (vaultBasePath w) (obsidianStoragePath w) (parseClaudePath p) = Inr tp
              \<and> \<not> shouldSync L w p (metaFile tp)
              \<and> res = Inr (upToDateResult (parseClaudePath p)) \<and> w' = w)
       \<or> (\<exists>tp. getTargetPaths (vaultBasePath w) (obsidianStoragePath w) (parseClaudePath p) = Inr tp
              \<and> shouldSync L w p (metaFile tp) \<and> parseJsonlFile L w p = Inr []
              \<and> res = Inr (emptyFileResult (parseClaudePath p)) \<and> w' = w)
       \<or> (\<exists>tp msgs. getTargetPaths (vaultBasePath w) (obsidianStoragePath w) (parseClaudePath p) = Inr tp
              \<and> shouldSync L w p (metaFile tp) \<and> parseJsonlFile L w p = Inr msgs \<and> msgs \<noteq> []
              \<and> res = Inr (copiedResult (parseClaudePath p) tp) \<and> jsonlFile tp \<noteq> []
              \<and> syncSingleFile_write L w p (parseClaudePath p) tp msgs = (w', res))"
proof (cases "getTargetPaths (vaultBasePath w) (obsidianStoragePath w) (parseClaudePath p)")
  case (Inl e)
  then show ?thesis using assms try_path_error [OF Inl, of L] by auto
next
  case (Inr tp)
  show ?thesis
  proof (cases "shouldSync L w p (metaFile tp)")
    case False
    then show ?thesis using assms try_uptodate [OF Inr False] Inr by auto
  next
    case True
    show ?thesis
    proof (cases "parseJsonlFile L w p")
      case (Inl e)
      then show ?thesis using assms try_parse_error [OF Inr True Inl] by auto
    next
      case msgs: (Inr msgs)
      show ?thesis
      proof (cases "msgs = []")
        case True
        then show ?thesis
          using assms try_empty [OF Inr \<open>shouldSync L w p (metaFile tp)\<close>] msgs Inr
            \<open>shouldSync L w p (metaFile tp)\<close> by auto
      next
        case False
        have wr: "syncSingleFile_write L w p (parseClaudePath p) tp msgs = (w', res)"
          using assms try_write [OF Inr True msgs False] by simp
        show ?thesis
        proof (cases res)
          case (Inl e) then show ?thesis by simp
        next
          case r: (Inr r)
          then have "r = copiedResult (parseClaudePath p) tp"
            using wr write_result by blast
          then show ?thesis
            using r wr Inr True msgs False jsonlFile_nonempty [OF Inr] by auto
        qed
      qed
    qed
  qed
qed

text \<open>The checks of the try block do not depend on the set of paths in progress.\<close>

lemma access_inProgress [simp]: "fs_access (w\<lparr>syncInProgress := S\<rparr>) p = fs_access w p"
  by (simp add: fs_access_def split: option.splits)

lemma readFile_inProgress [simp]: "fs_readFile (w\<lparr>syncInProgress := S\<rparr>) p = fs_readFile w p"
  by (simp add: fs_readFile_def split: option.splits)

lemma stat_inProgress [simp]: "fs_stat (w\<lparr>syncInProgress := S\<rparr>) p = fs_stat w p"
  by (simp add: fs_stat_def split: option.splits)

lemma readLines_inProgress [simp]: "readLines (w\<lparr>syncInProgress := S\<rparr>) p = readLines w p"
  by (simp add: readLines_def split: option.splits)

lemma shouldSync_inProgress [simp]:
  "shouldSync L (w\<lparr>syncInProgress := S\<rparr>) p m = shouldSync L w p m"
  by (simp add: shouldSync_def shouldSync_try_def split: sum.splits option.splits)

lemma parseJsonlFile_inProgress [simp]:
  "parseJsonlFile L (w\<lparr>syncInProgress := S\<rparr>) p = parseJsonlFile L w p"
  by (simp add: parseJsonlFile_def)

text \<open>What a call returns, and in which branch.\<close>

lemma syncSingleFile_cases:
  "(p \<in> syncInProgress w \<and> syncSingleFile L w p = (w, inProgressResult))
   \<or> (p \<notin> syncInProgress w \<and> (\<exists>e. snd (syncSingleFile L w p) = errorResult e))
   \<or> (p \<notin> syncInProgress w
        \<and> (\<exists>tp. getTargetPaths (vaultBasePath w) (obsidianStoragePath w) (parseClaudePath p) = Inr tp
              \<and> \<not> shouldSync L w p (metaFile tp))
        \<and> syncSingleFile L w p = (w, upToDateResult (parseClaudePath p)))
   \<or> (p \<notin> syncInProgress w
        \<and> (\<exists>tp. getTargetPaths (vaultBasePath w) (obsidianStoragePath w) (parseClaudePath p) = Inr tp
              \<and> shouldSync L w p (metaFile tp))
        \<and> parseJsonlFile L w p = Inr []
        \<and> syncSingleFile L w p = (w, emptyFileResult (parseClaudePath p)))
   \<or> (p \<notin> syncInProgress w
        \<and> (\<exists>tp. getTargetPaths (vaultBasePath w) (obsidianStoragePath w) (parseClaudePath p) = Inr tp
              \<and> shouldSync L w p (metaFile tp) \<and> jsonlFile tp \<noteq> []
              \<and> snd (syncSingleFile L w p) = copiedResult (parseClaudePath p) tp)
        \<and> (\<exists>msgs. parseJsonlFile L w p = Inr msgs \<and> msgs \<noteq> []))"
proof (cases "p \<in> syncInProgress w")
  case True
  then show ?thesis by (simp add: syncSingleFile_def)
next
  case False
  let ?w0 = "w\<lparr>syncInProgress := insert p (syncInProgress w)\<rparr>"
  obtain w' res where t: "syncSingleFile_try L ?w0 p = (w', res)"
    by (cases "syncSingleFile_try L ?w0 p")
  have restore: "(?w0)\<lparr>syncInProgress := syncInProgress (?w0) - {p}\<rparr> = w"
    using False by simp
  have s: "syncSingleFile L w p
             = (w'\<lparr>syncInProgress := syncInProgress w' - {p}\<rparr>,
                case res of Inl e \<Rightarrow> errorResult e | Inr r \<Rightarrow> r)"
    using False t by (simp add: syncSingleFile_def)
  from try_cases [OF t] show ?thesis
  proof (elim disjE exE conjE)
    fix e assume "res = Inl e"
    then show ?thesis using False s by auto
  next
    fix tp
    assume "getTargetPaths (vaultBasePath ?w0) (obsidianStoragePath ?w0) (parseClaudePath p) = Inr tp"
      "\<not> shouldSync L ?w0 p (metaFile tp)" "res = Inr (upToDateResult (parseClaudePath p))" "w' = ?w0"
    then show ?thesis using False s restore by auto
  next
    fix tp
    assume "getTargetPaths (vaultBasePath ?w0) (obsidianStoragePath ?w0) (parseClaudePath p) = Inr tp"
      "shouldSync L ?w0 p (metaFile tp)" "parseJsonlFile L ?w0 p = Inr []"
      "res = Inr (emptyFileResult (parseClaudePath p))" "w' = ?w0"
    then show ?thesis using False s restore by auto
  next
    fix tp msgs
    assume "getTargetPaths (vaultBasePath ?w0) (obsidianStoragePath ?w0) (parseClaudePath p) = Inr tp"
      "shouldSync L ?w0 p (metaFile tp)" "parseJsonlFile L ?w0 p = Inr msgs" "msgs \<noteq> []"
      "res = Inr (copiedResult (parseClaudePath p) tp)" "jsonlFile tp \<noteq> []"
    then show ?thesis using False s by auto
  qed
qed


lemmas result_defs = inProgressResult_def upToDateResult_def emptyFileResult_def
  copiedResult_def errorResult_def

lemma sync_uptodate:
  assumes "p \<notin> syncInProgress w"
    and "getTargetPaths (vaultBasePath w) (obsidianStoragePath w) (parseClaudePath p) = Inr tp"
    and "\<not> shouldSync L w p (metaFile tp)"
  shows "syncSingleFile L w p = (w, upToDateResult (parseClaudePath p))"
proof -
  let ?w0 = "w\<lparr>syncInProgress := insert p (syncInProgress w)\<rparr>"
  have "syncSingleFile_try L ?w0 p = (?w0, Inr (upToDateResult (parseClaudePath p)))"
    by (rule try_uptodate [where tp = tp]) (use assms in simp_all)
  then show ?thesis using assms(1) by (simp add: syncSingleFile_def)
qed

lemma sync_empty:
  assumes "p \<notin> syncInProgress w"
    and "getTargetPaths (vaultBasePath w) (obsidianStoragePath w) (parseClaudePath p) = Inr tp"
    and "shouldSync L w p (metaFile tp)" and "parseJsonlFile L w p = Inr []"
  shows "syncSingleFile L w p = (w, emptyFileResult (parseClaudePath p))"
proof -
  let ?w0 = "w\<lparr>syncInProgress := insert p (syncInProgress w)\<rparr>"
  have "syncSingleFile_try L ?w0 p = (?w0, Inr (emptyFileResult (parseClaudePath p)))"
    by (rule try_empty [where tp = tp]) (use assms in simp_all)
  then show ?thesis using assms(1) by (simp add: syncSingleFile_def)
qed

text \<open>
  Claim C3, as the code has it. The staleness check comes first: when \<open>shouldSync\<close>
  answers no, the call returns the skip "Already up to date" and leaves the world as it
  is, whatever the source holds; only when it answers yes is the source parsed, and a
  file without messages is then skipped as "Empty JSONL file" before any metadata is
  built or written. The empty-file skip is reported only after \<open>shouldSync\<close> answered
  yes, the up-to-date skip only after it answered no.
\<close>

theorem staleness_checked_before_parse:
  assumes "p \<notin> syncInProgress w"
    and "getTargetPaths (vaultBasePath w) (obsidianStoragePath w) (parseClaudePath p) = Inr tp"
  shows "(\<not> shouldSync L w p (metaFile tp) \<longrightarrow>
            syncSingleFile L w p = (w, upToDateResult (parseClaudePath p)))
       \<and> (shouldSync L w p (metaFile tp) \<and> parseJsonlFile L w p = Inr [] \<longrightarrow>
            syncSingleFile L w p = (w, emptyFileResult (parseClaudePath p)))
       \<and> (snd (syncSingleFile L w p) = emptyFileResult (parseClaudePath p) \<longrightarrow>
            shouldSync L w p (metaFile tp) \<and> parseJsonlFile L w p = Inr [])
       \<and> (snd (syncSingleFile L w p) = upToDateResult (parseClaudePath p) \<longrightarrow>
            \<not> shouldSync L w p (metaFile tp))"
proof (intro conjI impI)
  assume "\<not> shouldSync L w p (metaFile tp)"
  then show "syncSingleFile L w p = (w, upToDateResult (parseClaudePath p))"
    using assms sync_uptodate by blast
next
  assume "shouldSync L w p (metaFile tp) \<and> parseJsonlFile L w p = Inr []"
  then show "syncSingleFile L w p = (w, emptyFileResult (parseClaudePath p))"
    using assms sync_empty by blast
next
  assume a: "snd (syncSingleFile L w p) = emptyFileResult (parseClaudePath p)"
  show "shouldSync L w p (metaFile tp)"
    using syncSingleFile_cases [of p w L] assms a by (auto simp: result_defs)
  show "parseJsonlFile L w p = Inr []"
    using syncSingleFile_cases [of p w L] assms a by (auto simp: result_defs)
next
  assume a: "snd (syncSingleFile L w p) = upToDateResult (parseClaudePath p)"
  show "\<not> shouldSync L w p (metaFile tp)"
    using syncSingleFile_cases [of p w L] assms a by (auto simp: result_defs)
qed

text \<open>
  Claim C5. The action of a result is never \<open>Created\<close>: a call that succeeds and is not
  skipped returns \<open>Updated\<close>, because the path of the copy, a result of
  \<^verbatim>\<open>path.join\<close>, is never the empty string.
\<close>

theorem syncSingleFile_never_created:
  "action (snd (syncSingleFile L w p)) \<noteq> Created
   \<and> (success (snd (syncSingleFile L w p)) \<and> action (snd (syncSingleFile L w p)) \<noteq> Skipped
        \<longrightarrow> action (snd (syncSingleFile L w p)) = Updated)
   \<and> (getTargetPaths (vaultBasePath w) (obsidianStoragePath w) (parseClaudePath p) = Inr tp
        \<longrightarrow> jsonlFile tp \<noteq> [])"
  using syncSingleFile_cases [of p w L] jsonlFile_nonempty
  by (auto simp: result_defs)

lemma skipped_flag:
  "action (snd (syncSingleFile L w p)) = Skipped \<Longrightarrow>
     (message (snd (syncSingleFile L w p)) = Some (js ''Already up to date'')
        \<and> success (snd (syncSingleFile L w p)))
     \<or> (message (snd (syncSingleFile L w p)) = Some (js ''Empty JSONL file'')
        \<and> \<not> success (snd (syncSingleFile L w p)))
     \<or> (message (snd (syncSingleFile L w p)) = Some (js ''Sync already in progress'')
        \<and> \<not> success (snd (syncSingleFile L w p)))"
  using syncSingleFile_cases [of p w L]
  by (auto simp: result_defs)

lemma syncEach_results:
  "r \<in> set (snd (syncEach L w fs)) \<Longrightarrow> \<exists>w0 f. r = snd (syncSingleFile L w0 f)"
proof (induction fs arbitrary: w)
  case Nil then show ?case by simp
next
  case (Cons f fs)
  obtain w' r0 where a: "syncSingleFile L w f = (w', r0)" by (cases "syncSingleFile L w f")
  obtain w'' rs where b: "syncEach L w' fs = (w'', rs)" by (cases "syncEach L w' fs")
  from Cons.prems a b have "r = r0 \<or> r \<in> set (snd (syncEach L w' fs))" by auto
  then show ?case
  proof
    assume "r = r0" then show ?thesis using a by (metis snd_conv)
  next
    assume "r \<in> set (snd (syncEach L w' fs))" then show ?thesis by (rule Cons.IH)
  qed
qed

lemma errorCount_pos: "r \<in> set rs \<Longrightarrow> \<not> success r \<Longrightarrow> 0 < errorCount rs"
  by (auto simp: errorCount_def filter_empty_conv)

lemma successCount_pos: "r \<in> set rs \<Longrightarrow> success r \<Longrightarrow> 0 < successCount rs"
  by (auto simp: successCount_def filter_empty_conv)

text \<open>A source of zero bytes parses to no message.\<close>

lemma empty_file_parse:
  assumes "files w p = Some f" and "content f = []" and "faults w OpReadStream p = None"
  shows "parseJsonlFile L w p = Inr []"
  using assms by (simp add: parseJsonlFile_def readLines_def streamDecode_def utf8_decode_def)

lemma empty_file_sync:
  assumes "p \<notin> syncInProgress w"
    and "getTargetPaths (vaultBasePath w) (obsidianStoragePath w) (parseClaudePath p) = Inr tp"
    and "files w p = Some f" and "content f = []" and "faults w OpReadStream p = None"
  shows "syncSingleFile L w p
           = (w, if shouldSync L w p (metaFile tp) then emptyFileResult (parseClaudePath p)
                 else upToDateResult (parseClaudePath p))"
proof (cases "shouldSync L w p (metaFile tp)")
  case True
  then show ?thesis
    using sync_empty [OF assms(1,2) True empty_file_parse [OF assms(3,4,5)]] by simp
next
  case False
  then show ?thesis using sync_uptodate [OF assms(1,2) False] by simp
qed

lemma sync_path_error:
  assumes "p \<notin> syncInProgress w"
    and "getTargetPaths (vaultBasePath w) (obsidianStoragePath w) (parseClaudePath p) = Inl e"
  shows "syncSingleFile L w p = (w, errorResult e)"
proof -
  let ?w0 = "w\<lparr>syncInProgress := insert p (syncInProgress w)\<rparr>"
  have "syncSingleFile_try L ?w0 p = (?w0, Inl e)"
    by (rule try_path_error) (use assms in simp_all)
  then show ?thesis using assms(1) by (simp add: syncSingleFile_def)
qed

lemma empty_file_success:
  assumes "files w p = Some f" and "content f = []" and "faults w OpReadStream p = None"
  shows "success (snd (syncSingleFile L w p))
           = (p \<notin> syncInProgress w
              \<and> (\<exists>tp. getTargetPaths (vaultBasePath w) (obsidianStoragePath w) (parseClaudePath p)
                         = Inr tp
                       \<and> \<not> shouldSync L w p (metaFile tp)))"
proof (cases "p \<in> syncInProgress w")
  case True
  then show ?thesis by (simp add: syncSingleFile_def inProgressResult_def)
next
  case False
  show ?thesis
  proof (cases "getTargetPaths (vaultBasePath w) (obsidianStoragePath w) (parseClaudePath p)")
    case (Inl e)
    then show ?thesis using sync_path_error [OF False Inl, of L] False by (simp add: errorResult_def)
  next
    case (Inr tp)
    then show ?thesis
      using empty_file_sync [OF False Inr assms, of L] False
      by (simp add: emptyFileResult_def upToDateResult_def)
  qed
qed

text \<open>
  Claim C10, as the code has it. A skipped result has \<open>success = True\<close> with the
  message "Already up to date" and \<open>success = False\<close> with the messages "Empty JSONL
  file" and "Sync already in progress". A source of zero bytes is skipped as "Empty JSONL
  file", and counted among the failures of a bulk sync, when the staleness check asks for
  a sync; when the check answers no, it is skipped as "Already up to date" and counted
  among the successes. Its \<open>success\<close> flag is the negation of \<open>shouldSync\<close>, and
  \<open>False\<close> when the call is rejected or the target paths cannot be built. In every
  bulk sync, a skip with the message "Empty JSONL file" or "Sync already in progress" is
  a failure and gives the notice with errors, and a skip with the message "Already up to
  date" is a success.
\<close>

theorem skipped_success_flag:
  "(action (snd (syncSingleFile L w p)) = Skipped \<longrightarrow>
     (message (snd (syncSingleFile L w p)) = Some (js ''Already up to date'')
        \<and> success (snd (syncSingleFile L w p)))
     \<or> (message (snd (syncSingleFile L w p)) = Some (js ''Empty JSONL file'')
        \<and> \<not> success (snd (syncSingleFile L w p)))
     \<or> (message (snd (syncSingleFile L w p)) = Some (js ''Sync already in progress'')
        \<and> \<not> success (snd (syncSingleFile L w p))))
   \<and> (p \<notin> syncInProgress w
        \<and> getTargetPaths (vaultBasePath w) (obsidianStoragePath w) (parseClaudePath p) = Inr tp
        \<and> files w p = Some f \<and> content f = [] \<and> faults w OpReadStream p = None \<longrightarrow>
          syncSingleFile L w p
            = (w, if shouldSync L w p (metaFile tp) then emptyFileResult (parseClaudePath p)
                  else upToDateResult (parseClaudePath p))
          \<and> action (snd (syncSingleFile L w p)) = Skipped
          \<and> success (snd (syncSingleFile L w p)) = (\<not> shouldSync L w p (metaFile tp))
          \<and> manualSyncNotice (snd (syncEach L w [p]))
              = (if shouldSync L w p (metaFile tp) then SyncCompleteWithErrors 0 1
                 else SyncComplete 1))
   \<and> (files w p = Some f \<and> content f = [] \<and> faults w OpReadStream p = None \<longrightarrow>
        success (snd (syncSingleFile L w p))
          = (p \<notin> syncInProgress w
             \<and> (\<exists>tp. getTargetPaths (vaultBasePath w) (obsidianStoragePath w) (parseClaudePath p)
                        = Inr tp
                      \<and> \<not> shouldSync L w p (metaFile tp))))
   \<and> (\<forall>r \<in> set (snd (syncEach L w fs)).
        action r = Skipped \<longrightarrow>
          (message r = Some (js ''Empty JSONL file'')
             \<or> message r = Some (js ''Sync already in progress'') \<longrightarrow>
               \<not> success r
               \<and> 0 < errorCount (snd (syncEach L w fs))
               \<and> manualSyncNotice (snd (syncEach L w fs))
                   = SyncCompleteWithErrors (successCount (snd (syncEach L w fs)))
                       (errorCount (snd (syncEach L w fs))))
          \<and> (message r = Some (js ''Already up to date'') \<longrightarrow>
               success r \<and> 0 < successCount (snd (syncEach L w fs))))"
proof (intro conjI impI ballI)
  assume "action (snd (syncSingleFile L w p)) = Skipped"
  then show "(message (snd (syncSingleFile L w p)) = Some (js ''Already up to date'')
        \<and> success (snd (syncSingleFile L w p)))
     \<or> (message (snd (syncSingleFile L w p)) = Some (js ''Empty JSONL file'')
        \<and> \<not> success (snd (syncSingleFile L w p)))
     \<or> (message (snd (syncSingleFile L w p)) = Some (js ''Sync already in progress'')
        \<and> \<not> success (snd (syncSingleFile L w p)))"
    by (rule skipped_flag)
next
  assume a: "p \<notin> syncInProgress w
        \<and> getTargetPaths (vaultBasePath w) (obsidianStoragePath w) (parseClaudePath p) = Inr tp
        \<and> files w p = Some f \<and> content f = [] \<and> faults w OpReadStream p = None"
  then have s: "syncSingleFile L w p
            = (w, if shouldSync L w p (metaFile tp) then emptyFileResult (parseClaudePath p)
                  else upToDateResult (parseClaudePath p))"
    using empty_file_sync by blast
  then show "syncSingleFile L w p
            = (w, if shouldSync L w p (metaFile tp) then emptyFileResult (parseClaudePath p)
                  else upToDateResult (parseClaudePath p))" .
  show "action (snd (syncSingleFile L w p)) = Skipped"
    by (simp add: s emptyFileResult_def upToDateResult_def)
  show "success (snd (syncSingleFile L w p)) = (\<not> shouldSync L w p (metaFile tp))"
    by (simp add: s emptyFileResult_def upToDateResult_def)
  show "manualSyncNotice (snd (syncEach L w [p]))
              = (if shouldSync L w p (metaFile tp) then SyncCompleteWithErrors 0 1
                 else SyncComplete 1)"
    by (simp add: s emptyFileResult_def upToDateResult_def manualSyncNotice_def errorCount_def
        successCount_def)
next
  assume "files w p = Some f \<and> content f = [] \<and> faults w OpReadStream p = None"
  then show "success (snd (syncSingleFile L w p))
          = (p \<notin> syncInProgress w
             \<and> (\<exists>tp. getTargetPaths (vaultBasePath w) (obsidianStoragePath w) (parseClaudePath p)
                        = Inr tp
                      \<and> \<not> shouldSync L w p (metaFile tp)))"
    using empty_file_success by blast
next
  fix r assume r: "r \<in> set (snd (syncEach L w fs))" and k: "action r = Skipped"
    and e: "message r = Some (js ''Empty JSONL file'')
             \<or> message r = Some (js ''Sync already in progress'')"
  obtain w0 f0 where "r = snd (syncSingleFile L w0 f0)" using syncEach_results [OF r] by blast
  then have ns: "\<not> success r"
    using skipped_flag [of L w0 f0] k e by (auto simp: js_def)
  then show "\<not> success r" .
  show pos: "0 < errorCount (snd (syncEach L w fs))" using r ns by (rule errorCount_pos)
  then show "manualSyncNotice (snd (syncEach L w fs))
              = SyncCompleteWithErrors (successCount (snd (syncEach L w fs)))
                  (errorCount (snd (syncEach L w fs)))"
    by (simp add: manualSyncNotice_def)
next
  fix r assume r: "r \<in> set (snd (syncEach L w fs))" and k: "action r = Skipped"
    and e: "message r = Some (js ''Already up to date'')"
  obtain w0 f0 where "r = snd (syncSingleFile L w0 f0)" using syncEach_results [OF r] by blast
  then show ok: "success r"
    using skipped_flag [of L w0 f0] k e by (auto simp: js_def)
  show "0 < successCount (snd (syncEach L w fs))" using r ok by (rule successCount_pos)
qed

section \<open>Overlapping calls\<close>

lemma writeFile_inProgress:
  "fs_writeFile w p s = Inr w' \<Longrightarrow> syncInProgress w' = syncInProgress w"
  by (auto simp: fs_writeFile_def split: option.splits)

lemma write_inProgress:
  "syncInProgress (fst (syncSingleFile_write L w p pp tp msgs)) = syncInProgress w"
  by (auto simp: syncSingleFile_write_def Let_def dest!: writeFile_inProgress split: sum.splits)

lemma try_inProgress: "syncInProgress (fst (syncSingleFile_try L w p)) = syncInProgress w"
  by (simp add: syncSingleFile_try_def Let_def write_inProgress split: sum.splits)

lemma consistent_call: "consistent st \<Longrightarrow> consistent (callSync st p)"
  by (auto simp: consistent_def callSync_def)

lemma consistent_complete:
  assumes "consistent st"
  shows "consistent (completeSync L st p)"
proof (cases "p \<in> set (active st)")
  case False then show ?thesis using assms by (simp add: completeSync_def)
next
  case True
  obtain w' r where t: "syncSingleFile_try L (engine_world st) p = (w', r)"
    by (cases "syncSingleFile_try L (engine_world st) p")
  have "syncInProgress w' = syncInProgress (engine_world st)"
    using try_inProgress [of L "engine_world st" p] t by simp
  then show ?thesis using assms True t
    by (auto simp: consistent_def completeSync_def)
qed

lemma consistent_step: "consistent st \<Longrightarrow> consistent (engineStep L st ev)"
  by (cases ev) (simp_all add: consistent_call consistent_complete)

lemma consistent_run: "consistent st \<Longrightarrow> consistent (runEngine L evs st)"
  unfolding runEngine_def
  by (induction evs arbitrary: st) (simp_all add: consistent_step)

lemma distinct_count_le: "distinct xs \<Longrightarrow> count_list xs x \<le> 1"
  by (induction xs) auto

text \<open>
  Claim C7. A call for a path that is in progress returns the skip "Sync already in
  progress" at once and leaves the world as it is: nothing is read, written or queued.
  Whatever calls start and complete, the calls in flight are the paths in progress, each
  at most once.
\<close>

theorem one_sync_per_path:
  "(p \<in> syncInProgress w \<longrightarrow> syncSingleFile L w p = (w, inProgressResult))
   \<and> action inProgressResult = Skipped
   \<and> message inProgressResult = Some (js ''Sync already in progress'')
   \<and> (consistent st \<longrightarrow>
        consistent (runEngine L evs st) \<and> count_list (active (runEngine L evs st)) p \<le> 1)
   \<and> (consistent st \<and> p \<in> set (active st) \<longrightarrow>
        callSync st p = st\<lparr>results := results st @ [inProgressResult]\<rparr>)"
proof (intro conjI impI)
  assume "p \<in> syncInProgress w"
  then show "syncSingleFile L w p = (w, inProgressResult)" by (simp add: syncSingleFile_def)
next
  show "action inProgressResult = Skipped" by (simp add: inProgressResult_def)
  show "message inProgressResult = Some (js ''Sync already in progress'')"
    by (simp add: inProgressResult_def)
next
  assume "consistent st"
  then show c: "consistent (runEngine L evs st)" by (rule consistent_run)
  then have "distinct (active (runEngine L evs st))" by (simp add: consistent_def)
  then show "count_list (active (runEngine L evs st)) p \<le> 1" by (rule distinct_count_le)
next
  assume "consistent st \<and> p \<in> set (active st)"
  then have "p \<in> syncInProgress (engine_world st)" by (auto simp: consistent_def)
  then show "callSync st p = st\<lparr>results := results st @ [inProgressResult]\<rparr>"
    by (simp add: callSync_def)
qed

section \<open>Parser and metadata\<close>




text \<open>Reading the timestamps fails at a \<^verbatim>\<open>null\<close> entry and nowhere else.\<close>

lemma mapTimestamps_cases:
  "mapTimestamps ms
     = (if JsonNull \<in> set ms then Inl (nullPropertyError (js ''timestamp''))
        else Inr (map entryTimestamp ms))"
  by (induction ms) (auto simp: entryTimestamp_def split: parsed_line.splits)

lemma findField_total: "JsonNull \<notin> set ms \<Longrightarrow> \<exists>v. findField name field ms = Inr v"
  by (induction ms) (auto split: parsed_line.splits)

lemma present_entries: "presentTimestamps (map entryTimestamp ms) = timestampsPresent ms"
proof (induction ms)
  case Nil
  then show ?case by (simp add: presentTimestamps_def timestampsPresent_def map_filter_simps)
next
  case (Cons m ms)
  then show ?case
    by (cases "entryTimestamp m")
      (simp_all add: presentTimestamps_def timestampsPresent_def map_filter_simps)
qed

text \<open>When the metadata is built, and what it holds then.\<close>

lemma generateMetadata_built:
  "(\<exists>md. generateMetadata L w ms src pp = Inr md) \<longleftrightarrow>
     JsonNull \<notin> set ms \<and> length (timestampsPresent ms) \<le> maxArguments L"
proof (cases "JsonNull \<in> set ms")
  case True
  then show ?thesis by (simp add: generateMetadata_def mapTimestamps_cases)
next
  case False
  obtain b v where f: "findField (js ''gitBranch'') gitBranch ms = Inr b"
    "findField (js ''version'') version ms = Inr v"
    using findField_total [OF False] by blast
  show ?thesis
    using False
    by (auto simp: generateMetadata_def mapTimestamps_cases f Let_def present_entries)
qed



section \<open>The example worlds\<close>

lemmas path_eval = path_normalize_def normalizeString_def normalizeStep_def path_join_def Let_def

lemma example_parse: "parseClaudePath exampleSource = examplePath"
  by (simp add: parseClaudePath_def exampleSource_def examplePath_def path_eval decode_eval)

lemma example_targets:
  "getTargetPaths (Some (js ''/v'')) (js ''C'') examplePath = Inr exampleTargets"
  by (simp add: getTargetPaths_def examplePath_def exampleTargets_def path_eval sanitize_eval)

lemma example_distinct:
  "exampleSource \<noteq> metaFile exampleTargets" "exampleSource \<noteq> jsonlFile exampleTargets"
  "jsonlFile exampleTargets \<noteq> metaFile exampleTargets"
  "metaFile exampleTargets \<noteq> exampleSource" "jsonlFile exampleTargets \<noteq> exampleSource"
  "metaFile exampleTargets \<noteq> jsonlFile exampleTargets"
  by (simp_all add: exampleSource_def exampleTargets_def js_def)

lemma example_gt:
  "getTargetPaths (vaultBasePath (exampleWorld fs)) (obsidianStoragePath (exampleWorld fs))
     (parseClaudePath exampleSource) = Inr exampleTargets"
  by (simp add: exampleWorld_def example_parse example_targets)

text \<open>The file system operations in a world without faults.\<close>

lemma ex_access:
  "fs_access (exampleWorld fs) p = (case fs p of None \<Rightarrow> Inl (FsError ENOENT) | Some f \<Rightarrow> Inr ())"
  by (simp add: fs_access_def exampleWorld_def)

lemma ex_readFile:
  "fs_readFile (exampleWorld fs) p
     = (case fs p of None \<Rightarrow> Inl (FsError ENOENT) | Some f \<Rightarrow> Inr (utf8_decode (content f)))"
  by (simp add: fs_readFile_def exampleWorld_def)

lemma ex_stat:
  "fs_stat (exampleWorld fs) p
     = (case fs p of None \<Rightarrow> Inl (FsError ENOENT) | Some f \<Rightarrow> Inr (mtimeMs f))"
  by (simp add: fs_stat_def exampleWorld_def)

lemma ex_readLines:
  "readLines (exampleWorld fs) p
     = (case fs p of None \<Rightarrow> Inl (FsError ENOENT)
        | Some f \<Rightarrow> Inr (readlineLines [] False (streamDecode (content f))))"
  by (simp add: readLines_def exampleWorld_def)

text \<open>Reading the example files.\<close>

lemma sidecar_text: "utf8_decode (content exampleSidecar) = js ''{\"syncedAt\":5}''"
  by (simp add: exampleSidecar_def ascii_def utf8_decode_def js_def)

lemma sidecar_parse:
  "JSON_parse_metadata exampleLib (utf8_decode (content exampleSidecar)) = Some exampleMetadata"
  by (simp add: sidecar_text exampleLib_def)

lemma threeLines_text:
  "readlineLines [] False (streamDecode threeLines)
     = [js ''{\"timestamp\":7}'', js ''not json'', js ''{\"timestamp\":3}'']"
  by (simp add: threeLines_def asciiLines_def ascii_def streamDecode_def utf8_decode_def js_def)

lemma threeLines_messages:
  "parseLines exampleLib [js ''{\"timestamp\":7}'', js ''not json'', js ''{\"timestamp\":3}''] []
     = [exampleMessage (Some 7), exampleMessage (Some 3)]"
  by (simp add: exampleLib_def trim_def trimStart_def trimEnd_def isWhiteSpace_def js_def)

lemma brokenLog_text:
  "utf8_decode brokenLog = [0x7B, 0x7D, 0x0A, 0xFFFD, 0x0A]"
  by (simp add: brokenLog_def utf8_decode_def utf8_lead_def)

lemma brokenLog_stream: "streamDecode brokenLog = utf8_decode brokenLog"
  by (simp add: streamDecode_def brokenLog_def)

lemma brokenLog_lines:
  "readlineLines [] False (streamDecode brokenLog) = [js ''{}'', [0xFFFD]]"
  by (simp add: brokenLog_stream brokenLog_text js_def)

lemma brokenLog_messages:
  "parseLines exampleLib [js ''{}'', [0xFFFD]] [] = [exampleMessage None]"
  by (simp add: exampleLib_def trim_def trimStart_def trimEnd_def isWhiteSpace_def js_def)

lemma brokenLog_written:
  "utf8_encode (utf8_decode brokenLog) = [0x7B, 0x7D, 0x0A, 0xEF, 0xBF, 0xBD, 0x0A]"
  by (simp add: brokenLog_text utf8_bytes_def isHighSurrogate_def isLowSurrogate_def)

text \<open>The staleness check in the example worlds.\<close>

lemma synced_sidecar:
  "readSidecar exampleLib (syncedWorld t) (metaFile exampleTargets) = PriorMetadata exampleMetadata"
  using example_distinct
  by (simp add: readSidecar_def syncedWorld_def ex_access ex_readFile sidecar_parse)

lemma synced_stat: "fs_stat (syncedWorld t) exampleSource = Inr t"
  using example_distinct by (simp add: syncedWorld_def ex_stat)

lemma orphan_sidecar:
  "readSidecar exampleLib orphanWorld (metaFile exampleTargets) = PriorMetadata exampleMetadata"
  by (simp add: readSidecar_def orphanWorld_def ex_access ex_readFile sidecar_parse)

lemma orphan_stat: "fs_stat orphanWorld exampleSource = Inl (FsError ENOENT)"
  using example_distinct by (simp add: orphanWorld_def ex_stat)

lemma fresh_sidecar:
  "readSidecar exampleLib freshWorld (metaFile exampleTargets) = NoSidecar"
  using example_distinct by (simp add: readSidecar_def freshWorld_def ex_access)

lemma meta_syncedAt: "syncedAt exampleMetadata = 5"
  by (simp add: exampleMetadata_def)

theorem shouldSync_policy_witness:
  "readSidecar exampleLib (syncedWorld 5) (metaFile exampleTargets) = PriorMetadata exampleMetadata
   \<and> syncedAt exampleMetadata = 5
   \<and> fs_stat (syncedWorld 5) exampleSource = Inr 5
   \<and> \<not> shouldSync exampleLib (syncedWorld 5) exampleSource (metaFile exampleTargets)
   \<and> fs_stat (syncedWorld 6) exampleSource = Inr 6
   \<and> shouldSync exampleLib (syncedWorld 6) exampleSource (metaFile exampleTargets)
   \<and> readSidecar exampleLib freshWorld (metaFile exampleTargets) = NoSidecar
   \<and> shouldSync exampleLib freshWorld exampleSource (metaFile exampleTargets)"
  using shouldSync_policy [of exampleLib "syncedWorld 5" exampleSource "metaFile exampleTargets"]
    shouldSync_policy [of exampleLib "syncedWorld 6" exampleSource "metaFile exampleTargets"]
    shouldSync_policy [of exampleLib freshWorld exampleSource "metaFile exampleTargets"]
  by (simp add: synced_sidecar synced_stat fresh_sidecar meta_syncedAt)

text \<open>
  Claim C2 as stated fails: with a sidecar that is there and parses, and a source that is
  gone, no modification time is greater than \<open>syncedAt\<close>, and \<open>shouldSync\<close> still
  answers yes.
\<close>

theorem shouldSync_missing_source:
  "shouldSync exampleLib orphanWorld exampleSource (metaFile exampleTargets)
   \<and> readSidecar exampleLib orphanWorld (metaFile exampleTargets) = PriorMetadata exampleMetadata
   \<and> fs_stat orphanWorld exampleSource = Inl (FsError ENOENT)"
proof -
  have a: "fs_access orphanWorld (metaFile exampleTargets) = Inr ()"
    by (simp add: orphanWorld_def ex_access)
  have r: "fs_readFile orphanWorld (metaFile exampleTargets)
             = Inr (utf8_decode (content exampleSidecar))"
    by (simp add: orphanWorld_def ex_readFile)
  have "shouldSync exampleLib orphanWorld exampleSource (metaFile exampleTargets)"
    by (simp add: shouldSync_def shouldSync_try_def a r sidecar_parse orphan_stat)
  then show ?thesis using orphan_sidecar orphan_stat by simp
qed


text \<open>The second part of the try block when nothing fails.\<close>

lemma write_succeeds:
  assumes nf: "\<And>op q. faults w op q = None" and src: "files w p = Some f"
    and gm: "generateMetadata L w msgs p pp = Inr md"
  shows "syncSingleFile_write L w p pp tp msgs =
     (w\<lparr>files := (files w)
           (jsonlFile tp \<mapsto> \<lparr>content = utf8_encode (utf8_decode (content f)), mtimeMs = clock w\<rparr>,
            metaFile tp \<mapsto>
              \<lparr>content = utf8_encode (JSON_stringify_metadata L md), mtimeMs = clock w\<rparr>),
        lastSyncTime := clock w\<rparr>,
      Inr (copiedResult pp tp))"
  by (simp add: syncSingleFile_write_def Let_def ensureDirectory_def fs_mkdir_def fs_readFile_def
      fs_writeFile_def saveSettings_def nf src gm)

lemma generateMetadata_inProgress [simp]:
  "generateMetadata L (w\<lparr>syncInProgress := S\<rparr>) msgs p pp = generateMetadata L w msgs p pp"
  by (simp add: generateMetadata_def Let_def split: sum.splits list.splits)

lemma sync_copies:
  assumes "p \<notin> syncInProgress w"
    and "getTargetPaths (vaultBasePath w) (obsidianStoragePath w) (parseClaudePath p) = Inr tp"
    and "shouldSync L w p (metaFile tp)" and "parseJsonlFile L w p = Inr msgs" and "msgs \<noteq> []"
    and nf: "\<And>op q. faults w op q = None" and src: "files w p = Some f"
    and gm: "generateMetadata L w msgs p (parseClaudePath p) = Inr md"
  shows "snd (syncSingleFile L w p) = copiedResult (parseClaudePath p) tp
       \<and> files (fst (syncSingleFile L w p)) (jsonlFile tp)
           = (if jsonlFile tp = metaFile tp
              then Some \<lparr>content = utf8_encode (JSON_stringify_metadata L md), mtimeMs = clock w\<rparr>
              else Some \<lparr>content = utf8_encode (utf8_decode (content f)), mtimeMs = clock w\<rparr>)"
proof -
  let ?w0 = "w\<lparr>syncInProgress := insert p (syncInProgress w)\<rparr>"
  have "syncSingleFile_try L ?w0 p = syncSingleFile_write L ?w0 p (parseClaudePath p) tp msgs"
    by (rule try_write) (use assms in simp_all)
  moreover note write_succeeds [of ?w0 p f L msgs "parseClaudePath p" md tp]
  ultimately show ?thesis using assms(1) nf src gm
    by (simp add: syncSingleFile_def)
qed


text \<open>The example worlds.\<close>

lemma ex_faults: "faults (exampleWorld fs) op q = None"
  by (simp add: exampleWorld_def)

lemma ex_idle: "exampleSource \<notin> syncInProgress (exampleWorld fs)"
  by (simp add: exampleWorld_def)

lemma fresh_shouldSync: "shouldSync exampleLib freshWorld exampleSource (metaFile exampleTargets)"
  using example_distinct by (simp add: shouldSync_def shouldSync_try_def freshWorld_def ex_access)

lemma fresh_parse:
  "parseJsonlFile exampleLib freshWorld exampleSource
     = Inr [exampleMessage (Some 7), exampleMessage (Some 3)]"
  by (simp add: parseJsonlFile_def freshWorld_def ex_readLines)
    (simp only: threeLines_text threeLines_messages)

lemma example_messages: "JsonNull \<notin> set [exampleMessage t, exampleMessage u]"
  "JsonNull \<notin> set [exampleMessage t]"
  by (simp_all add: exampleMessage_def)

lemma fresh_metadata:
  "generateMetadata exampleLib freshWorld [exampleMessage (Some 7), exampleMessage (Some 3)]
     exampleSource examplePath
   = Inr \<lparr> meta_sessionId = js ''s'', projectName = js ''p - q'', projectPath = Some (js ''p%2Fq''),
           messageCount = 2, firstTimestamp = 3, lastTimestamp = 7, meta_gitBranch = None,
           meta_version = None, syncedAt = 10, sourceFilePath = exampleSource \<rparr>"
  by (simp add: generateMetadata_def exampleMessage_def presentTimestamps_def truthy_def
      examplePath_def freshWorld_def exampleWorld_def exampleLib_def)

lemma fresh_sync:
  "snd (syncSingleFile exampleLib freshWorld exampleSource) = copiedResult examplePath exampleTargets"
proof -
  have i: "exampleSource \<notin> syncInProgress freshWorld" by (simp add: freshWorld_def ex_idle)
  have t: "getTargetPaths (vaultBasePath freshWorld) (obsidianStoragePath freshWorld)
             (parseClaudePath exampleSource) = Inr exampleTargets"
    by (simp add: freshWorld_def example_gt)
  have nf: "faults freshWorld op q = None" for op q by (simp add: freshWorld_def ex_faults)
  have src: "files freshWorld exampleSource = Some \<lparr>content = threeLines, mtimeMs = 5\<rparr>"
    by (simp add: freshWorld_def exampleWorld_def)
  have gm: "generateMetadata exampleLib freshWorld [exampleMessage (Some 7), exampleMessage (Some 3)]
              exampleSource (parseClaudePath exampleSource)
            = Inr \<lparr> meta_sessionId = js ''s'', projectName = js ''p - q'',
                    projectPath = Some (js ''p%2Fq''), messageCount = 2, firstTimestamp = 3,
                    lastTimestamp = 7, meta_gitBranch = None, meta_version = None, syncedAt = 10,
                    sourceFilePath = exampleSource \<rparr>"
    using fresh_metadata by (simp add: example_parse)
  have "snd (syncSingleFile exampleLib freshWorld exampleSource)
          = copiedResult (parseClaudePath exampleSource) exampleTargets"
    using sync_copies [OF i t fresh_shouldSync fresh_parse _ nf src gm] by simp
  then show ?thesis by (simp add: example_parse)
qed

lemma emptySynced_shouldSync:
  "\<not> shouldSync exampleLib emptySyncedWorld exampleSource (metaFile exampleTargets)"
proof -
  have a: "fs_access emptySyncedWorld (metaFile exampleTargets) = Inr ()"
    by (simp add: emptySyncedWorld_def ex_access)
  have r: "fs_readFile emptySyncedWorld (metaFile exampleTargets)
             = Inr (utf8_decode (content exampleSidecar))"
    by (simp add: emptySyncedWorld_def ex_readFile)
  have s: "fs_stat emptySyncedWorld exampleSource = Inr 5"
    using example_distinct by (simp add: emptySyncedWorld_def ex_stat)
  show ?thesis
    by (simp add: shouldSync_def shouldSync_try_def a r s sidecar_parse meta_syncedAt)
qed

lemma emptySynced_parse: "parseJsonlFile exampleLib emptySyncedWorld exampleSource = Inr []"
  using example_distinct
  by (simp add: parseJsonlFile_def emptySyncedWorld_def ex_readLines streamDecode_def utf8_decode_def)

lemma empty_shouldSync: "shouldSync exampleLib emptyWorld exampleSource (metaFile exampleTargets)"
  using example_distinct by (simp add: shouldSync_def shouldSync_try_def emptyWorld_def ex_access)

lemma empty_parse: "parseJsonlFile exampleLib emptyWorld exampleSource = Inr []"
  by (simp add: parseJsonlFile_def emptyWorld_def ex_readLines streamDecode_def utf8_decode_def)

lemma example_gt':
  "getTargetPaths (vaultBasePath emptyWorld) (obsidianStoragePath emptyWorld)
     (parseClaudePath exampleSource) = Inr exampleTargets"
  "getTargetPaths (vaultBasePath emptySyncedWorld) (obsidianStoragePath emptySyncedWorld)
     (parseClaudePath exampleSource) = Inr exampleTargets"
  "getTargetPaths (vaultBasePath freshWorld) (obsidianStoragePath freshWorld)
     (parseClaudePath exampleSource) = Inr exampleTargets"
  "getTargetPaths (vaultBasePath brokenWorld) (obsidianStoragePath brokenWorld)
     (parseClaudePath exampleSource) = Inr exampleTargets"
  by (simp_all add: emptyWorld_def emptySyncedWorld_def freshWorld_def brokenWorld_def example_gt)

lemma example_idle':
  "exampleSource \<notin> syncInProgress emptyWorld" "exampleSource \<notin> syncInProgress emptySyncedWorld"
  "exampleSource \<notin> syncInProgress freshWorld" "exampleSource \<notin> syncInProgress brokenWorld"
  by (simp_all add: emptyWorld_def emptySyncedWorld_def freshWorld_def brokenWorld_def ex_idle)

text \<open>
  Claim C3 as stated fails: an empty log whose sidecar is not older than the log is
  reported as "Already up to date", although it parses to no entry.
\<close>

theorem uptodate_reported_for_empty_file:
  "parseJsonlFile exampleLib emptySyncedWorld exampleSource = Inr []
   \<and> snd (syncSingleFile exampleLib emptySyncedWorld exampleSource) = upToDateResult examplePath
   \<and> action (upToDateResult examplePath) = Skipped
   \<and> message (upToDateResult examplePath) = Some (js ''Already up to date'')"
  using sync_uptodate [OF example_idle'(2) example_gt'(2) emptySynced_shouldSync]
  by (simp add: emptySynced_parse example_parse upToDateResult_def)

theorem staleness_checked_before_parse_witness:
  "exampleSource \<notin> syncInProgress emptyWorld
   \<and> getTargetPaths (vaultBasePath emptyWorld) (obsidianStoragePath emptyWorld)
        (parseClaudePath exampleSource) = Inr exampleTargets
   \<and> shouldSync exampleLib emptyWorld exampleSource (metaFile exampleTargets)
   \<and> parseJsonlFile exampleLib emptyWorld exampleSource = Inr []
   \<and> syncSingleFile exampleLib emptyWorld exampleSource = (emptyWorld, emptyFileResult examplePath)
   \<and> exampleSource \<notin> syncInProgress emptySyncedWorld
   \<and> \<not> shouldSync exampleLib emptySyncedWorld exampleSource (metaFile exampleTargets)
   \<and> syncSingleFile exampleLib emptySyncedWorld exampleSource
        = (emptySyncedWorld, upToDateResult examplePath)"
  using staleness_checked_before_parse [OF example_idle'(1) example_gt'(1), of exampleLib]
    staleness_checked_before_parse [OF example_idle'(2) example_gt'(2), of exampleLib]
    example_idle' example_gt' empty_shouldSync empty_parse emptySynced_shouldSync
  by (simp add: example_parse)

theorem syncSingleFile_never_created_witness:
  "success (snd (syncSingleFile exampleLib freshWorld exampleSource))
   \<and> action (snd (syncSingleFile exampleLib freshWorld exampleSource)) = Updated
   \<and> jsonlFile exampleTargets = js ''/v/C/p - q/s.jsonl''"
  using syncSingleFile_never_created [of exampleLib freshWorld exampleSource exampleTargets]
  by (simp add: fresh_sync copiedResult_def exampleTargets_def)

lemma empty_source:
  "files emptyWorld exampleSource = Some \<lparr>content = [], mtimeMs = 5\<rparr>"
  "files emptySyncedWorld exampleSource = Some \<lparr>content = [], mtimeMs = 5\<rparr>"
  using example_distinct
  by (simp_all add: emptyWorld_def emptySyncedWorld_def exampleWorld_def)

lemma empty_faults: "faults emptyWorld op q = None" "faults emptySyncedWorld op q = None"
  by (simp_all add: emptyWorld_def emptySyncedWorld_def ex_faults)

theorem skipped_success_flag_witness:
  "exampleSource \<notin> syncInProgress emptyWorld
   \<and> files emptyWorld exampleSource = Some \<lparr>content = [], mtimeMs = 5\<rparr>
   \<and> shouldSync exampleLib emptyWorld exampleSource (metaFile exampleTargets)
   \<and> syncSingleFile exampleLib emptyWorld exampleSource = (emptyWorld, emptyFileResult examplePath)
   \<and> action (emptyFileResult examplePath) = Skipped
   \<and> message (emptyFileResult examplePath) = Some (js ''Empty JSONL file'')
   \<and> \<not> success (emptyFileResult examplePath)
   \<and> manualSyncNotice (snd (syncEach exampleLib emptyWorld [exampleSource]))
        = SyncCompleteWithErrors 0 1"
proof -
  have m: "action (emptyFileResult examplePath) = Skipped"
    "message (emptyFileResult examplePath) = Some (js ''Empty JSONL file'')"
    by (simp_all add: emptyFileResult_def)
  have h: "exampleSource \<notin> syncInProgress emptyWorld
        \<and> getTargetPaths (vaultBasePath emptyWorld) (obsidianStoragePath emptyWorld)
            (parseClaudePath exampleSource) = Inr exampleTargets
        \<and> files emptyWorld exampleSource = Some \<lparr>content = [], mtimeMs = 5\<rparr>
        \<and> content \<lparr>content = [], mtimeMs = 5\<rparr> = []
        \<and> faults emptyWorld OpReadStream exampleSource = None"
    using example_idle'(1) example_gt'(1) empty_source(1) empty_faults(1) by simp
  from skipped_success_flag [of exampleLib emptyWorld exampleSource exampleTargets
      "\<lparr>content = [], mtimeMs = 5\<rparr>" "[exampleSource]"] h
  have "syncSingleFile exampleLib emptyWorld exampleSource
          = (emptyWorld, if shouldSync exampleLib emptyWorld exampleSource (metaFile exampleTargets)
                         then emptyFileResult (parseClaudePath exampleSource)
                         else upToDateResult (parseClaudePath exampleSource))
      \<and> manualSyncNotice (snd (syncEach exampleLib emptyWorld [exampleSource]))
           = (if shouldSync exampleLib emptyWorld exampleSource (metaFile exampleTargets)
              then SyncCompleteWithErrors 0 1 else SyncComplete 1)"
    by blast
  then have "syncSingleFile exampleLib emptyWorld exampleSource
               = (emptyWorld, emptyFileResult examplePath)
      \<and> manualSyncNotice (snd (syncEach exampleLib emptyWorld [exampleSource]))
           = SyncCompleteWithErrors 0 1"
    using empty_shouldSync by (simp only: if_True example_parse) 
  then show ?thesis
    using m example_idle'(1) empty_source(1) empty_shouldSync
    by (simp add: emptyFileResult_def manualSyncNotice_def errorCount_def successCount_def)
qed

text \<open>
  Claim C10 as stated fails in its last part: a source of zero bytes whose sidecar is not
  older than the source is skipped as "Already up to date", with \<open>success = True\<close>, and a
  bulk sync of it counts one success and no failure.
\<close>

theorem empty_file_counted_as_success:
  "map_option content (files emptySyncedWorld exampleSource) = Some []
   \<and> snd (syncSingleFile exampleLib emptySyncedWorld exampleSource) = upToDateResult examplePath
   \<and> message (upToDateResult examplePath) = Some (js ''Already up to date'')
   \<and> success (snd (syncSingleFile exampleLib emptySyncedWorld exampleSource))
   \<and> errorCount (snd (syncEach exampleLib emptySyncedWorld [exampleSource])) = 0
   \<and> manualSyncNotice (snd (syncEach exampleLib emptySyncedWorld [exampleSource])) = SyncComplete 1"
proof -
  have s: "syncSingleFile exampleLib emptySyncedWorld exampleSource
             = (emptySyncedWorld, upToDateResult examplePath)"
    using sync_uptodate [OF example_idle'(2) example_gt'(2) emptySynced_shouldSync]
    by (simp add: example_parse)
  show ?thesis
    by (simp add: s empty_source(2) upToDateResult_def manualSyncNotice_def errorCount_def
        successCount_def)
qed

theorem one_sync_per_path_witness:
  "consistent idleEngine
   \<and> active (runEngine exampleLib [Call exampleSource, Call exampleSource] idleEngine) = [exampleSource]
   \<and> results (runEngine exampleLib [Call exampleSource, Call exampleSource] idleEngine)
        = [inProgressResult]
   \<and> count_list (active (runEngine exampleLib [Call exampleSource, Call exampleSource] idleEngine))
        exampleSource \<le> 1
   \<and> syncSingleFile exampleLib (freshWorld\<lparr>syncInProgress := {exampleSource}\<rparr>) exampleSource
        = (freshWorld\<lparr>syncInProgress := {exampleSource}\<rparr>, inProgressResult)"
proof -
  have c: "consistent idleEngine"
    by (simp add: consistent_def idleEngine_def freshWorld_def exampleWorld_def)
  have "callSync idleEngine exampleSource
          = idleEngine\<lparr>engine_world := freshWorld\<lparr>syncInProgress := {exampleSource}\<rparr>,
                        active := [exampleSource]\<rparr>"
    by (simp add: callSync_def idleEngine_def freshWorld_def exampleWorld_def)
  then have r: "runEngine exampleLib [Call exampleSource, Call exampleSource] idleEngine
          = idleEngine\<lparr>engine_world := freshWorld\<lparr>syncInProgress := {exampleSource}\<rparr>,
                        active := [exampleSource], results := [inProgressResult]\<rparr>"
    by (simp add: runEngine_def callSync_def idleEngine_def)
  show ?thesis
    using one_sync_per_path [of exampleSource "freshWorld\<lparr>syncInProgress := {exampleSource}\<rparr>"
        exampleLib idleEngine "[Call exampleSource, Call exampleSource]"] c
    by (simp add: r)
qed







lemma example_present:
  "timestampsPresent [exampleMessage (Some 7), exampleMessage (Some 3)] = [7, 3]"
  "timestampsPresent [exampleMessage None] = []"
  "timestampsPresent [exampleMessage None, exampleMessage None] = []"
  by (simp_all add: timestampsPresent_def map_filter_simps entryTimestamp_def exampleMessage_def)



section \<open>The copy and the sidecar are different files\<close>

lemma splitOn_nonempty: "splitOn sep s \<noteq> []"
  by (induction s) (auto split: list.splits)

lemma splitOn_no_sep: "x \<in> set (splitOn sep s) \<Longrightarrow> sep \<notin> set x"
  by (induction s arbitrary: x) (auto split: list.splits if_splits)

lemma splitOn_plain: "sep \<notin> set seg \<Longrightarrow> splitOn sep seg = [seg]"
  by (induction seg) auto

lemma splitOn_append:
  "sep \<notin> set seg \<Longrightarrow> splitOn sep (a @ sep # seg) = splitOn sep a @ [seg]"
proof (induction a)
  case Nil then show ?case by (simp add: splitOn_plain)
next
  case (Cons c a)
  then show ?case using splitOn_nonempty [of sep a] by (auto split: list.splits)
qed

lemma joinWith_snoc:
  "joinWith sep (xs @ [x]) = (if xs = [] then x else joinWith sep xs @ sep # x)"
proof (induction xs)
  case Nil then show ?case by simp
next
  case (Cons y ys) then show ?case by (cases ys) auto
qed

lemma last_joinWith:
  "x \<noteq> [] \<Longrightarrow> joinWith sep (xs @ [x]) \<noteq> [] \<and> last (joinWith sep (xs @ [x])) = last x"
  by (simp add: joinWith_snoc)

lemma replaceFirst_subset: "set (replaceFirst pat [] s) \<subseteq> set s"
proof (induction s)
  case Nil then show ?case by simp
next
  case (Cons c s)
  have "set (drop (length pat) (c # s)) \<subseteq> set (c # s)" by (rule set_drop_subset)
  then show ?case using Cons by auto
qed

lemma sessionId_no_sep: "0x2F \<notin> set (sessionId (parseClaudePath p))"
proof -
  let ?parts = "splitOn 0x2F (path_normalize p)"
  have "last ?parts \<in> set ?parts" using splitOn_nonempty by (rule last_in_set)
  then have "0x2F \<notin> set (last ?parts)" by (rule splitOn_no_sep)
  then show ?thesis
    using replaceFirst_subset [of "js ''.jsonl''" "last ?parts"]
    by (auto simp: parseClaudePath_def Let_def)
qed

lemma last_path_join:
  assumes "d \<noteq> []" "seg \<noteq> []" "0x2F \<notin> set seg" "seg \<noteq> js ''.''" "seg \<noteq> js ''..''"
  shows "last (path_join [d, seg]) = last seg"
proof -
  let ?P = "d @ 0x2F # seg"
  have j: "path_join [d, seg] = path_normalize ?P"
    using assms(1,2) by (simp add: path_join_def)
  have nt: "last ?P \<noteq> 0x2F" using assms(2,3) by (auto simp: last_in_set dest: last_in_set)
  have q: "normalizeString ?P allow = joinWith 0x2F (foldl (normalizeStep allow) [] (splitOn 0x2F d) @ [seg])"
    for allow
    using assms(2,4,5) by (simp add: normalizeString_def splitOn_append [OF assms(3)] normalizeStep_def)
  have l: "normalizeString ?P allow \<noteq> [] \<and> last (normalizeString ?P allow) = last seg" for allow
    unfolding q using assms(2) by (rule last_joinWith)
  show ?thesis
    using nt l [of "\<not> hd ?P = 0x2F"] by (auto simp: j path_normalize_def Let_def)
qed

lemma targets_distinct:
  assumes "getTargetPaths base storage (parseClaudePath p) = Inr tp"
  shows "jsonlFile tp \<noteq> metaFile tp"
proof -
  let ?sid = "sessionId (parseClaudePath p)"
  obtain b where tp: "jsonlFile tp = path_join [projectDir tp, ?sid @ js ''.jsonl'']"
    "metaFile tp = path_join [projectDir tp, ?sid @ js ''.meta.json'']"
    "projectDir tp \<noteq> []"
    using assms by (auto simp: getTargetPaths_def Let_def path_join_nonempty split: option.splits)
  have ns: "0x2F \<notin> set ?sid" by (rule sessionId_no_sep)
  have "last (jsonlFile tp) = last (?sid @ js ''.jsonl'')"
    unfolding tp(1) using tp(3) ns by (intro last_path_join) (auto simp: js_def)
  moreover have "last (metaFile tp) = last (?sid @ js ''.meta.json'')"
    unfolding tp(2) using tp(3) ns by (intro last_path_join) (auto simp: js_def)
  ultimately have "last (jsonlFile tp) \<noteq> last (metaFile tp)" by (simp add: js_def)
  then show ?thesis by auto
qed

section \<open>What the copy preserves\<close>

text \<open>
  When the writing part of a sync succeeds, the source was there, and the two destination
  files are the source text encoded again and the sidecar, in this order.
\<close>

lemma write_files:
  assumes "syncSingleFile_write L w p pp tp msgs = (w', Inr r)"
  shows "\<exists>f md. files w p = Some f
           \<and> files w' = (files w)
                (jsonlFile tp \<mapsto> \<lparr>content = utf8_encode (utf8_decode (content f)), mtimeMs = clock w\<rparr>,
                 metaFile tp \<mapsto>
                   \<lparr>content = utf8_encode (JSON_stringify_metadata L md), mtimeMs = clock w\<rparr>)"
  using assms
  by (auto simp: syncSingleFile_write_def Let_def fs_readFile_def fs_writeFile_def
      split: sum.splits option.splits)

text \<open>
  A sync that copies (its action is neither \<open>Skipped\<close> nor \<open>Error\<close>) leaves at the
  destination the source text decoded and encoded again. For a source that is well-formed
  UTF-8 these are the bytes of the source.
\<close>

lemma copy_reencodes:
  assumes act: "action (snd (syncSingleFile L w p)) \<noteq> Skipped"
              "action (snd (syncSingleFile L w p)) \<noteq> Error"
  shows "\<exists>tp f. getTargetPaths (vaultBasePath w) (obsidianStoragePath w) (parseClaudePath p) = Inr tp
           \<and> files w p = Some f
           \<and> map_option content (files (fst (syncSingleFile L w p)) (jsonlFile tp))
               = Some (utf8_encode (utf8_decode (content f)))"
proof -
  let ?w0 = "w\<lparr>syncInProgress := insert p (syncInProgress w)\<rparr>"
  have idle: "p \<notin> syncInProgress w"
    using act(1) by (auto simp: syncSingleFile_def inProgressResult_def)
  obtain w' res where t: "syncSingleFile_try L ?w0 p = (w', res)" by (cases "syncSingleFile_try L ?w0 p")
  have s: "syncSingleFile L w p
             = (w'\<lparr>syncInProgress := syncInProgress w' - {p}\<rparr>,
                case res of Inl e \<Rightarrow> errorResult e | Inr r \<Rightarrow> r)"
    using idle t by (simp add: syncSingleFile_def)
  from try_cases [OF t] act obtain tp msgs where
    gt: "getTargetPaths (vaultBasePath w) (obsidianStoragePath w) (parseClaudePath p) = Inr tp"
    and wr: "syncSingleFile_write L ?w0 p (parseClaudePath p) tp msgs
               = (w', Inr (copiedResult (parseClaudePath p) tp))"
    unfolding s by (auto simp: errorResult_def upToDateResult_def emptyFileResult_def)
  from write_files [OF wr] obtain f md where
    f: "files w p = Some f"
    and fs: "files w' = (files ?w0)
                (jsonlFile tp \<mapsto> \<lparr>content = utf8_encode (utf8_decode (content f)), mtimeMs = clock ?w0\<rparr>,
                 metaFile tp \<mapsto>
                   \<lparr>content = utf8_encode (JSON_stringify_metadata L md), mtimeMs = clock ?w0\<rparr>)"
    by auto
  have "jsonlFile tp \<noteq> metaFile tp" using gt by (rule targets_distinct)
  then have "map_option content (files w' (jsonlFile tp)) = Some (utf8_encode (utf8_decode (content f)))"
    unfolding fs by simp
  then show ?thesis using gt f by (auto simp: s)
qed

lemma copy_preserves_wellformed:
  assumes "action (snd (syncSingleFile L w p)) \<noteq> Skipped"
    and "action (snd (syncSingleFile L w p)) \<noteq> Error"
    and "\<And>f. files w p = Some f \<Longrightarrow> valid_utf8 (content f)"
  shows "\<exists>tp f. getTargetPaths (vaultBasePath w) (obsidianStoragePath w) (parseClaudePath p) = Inr tp
           \<and> files w p = Some f
           \<and> map_option content (files (fst (syncSingleFile L w p)) (jsonlFile tp))
               = Some (content f)"
proof -
  from copy_reencodes [OF assms(1,2)] obtain tp f where
    a: "getTargetPaths (vaultBasePath w) (obsidianStoragePath w) (parseClaudePath p) = Inr tp"
       "files w p = Some f"
       "map_option content (files (fst (syncSingleFile L w p)) (jsonlFile tp))
          = Some (utf8_encode (utf8_decode (content f)))"
    by blast
  have "utf8_encode (utf8_decode (content f)) = content f"
    using assms(3) [OF a(2)] by (rule utf8_roundtrip)
  then show ?thesis using a by auto
qed

text \<open>The sync of the broken log.\<close>

lemma broken_shouldSync: "shouldSync exampleLib brokenWorld exampleSource (metaFile exampleTargets)"
  using example_distinct by (simp add: shouldSync_def shouldSync_try_def brokenWorld_def ex_access)

lemma broken_parse:
  "parseJsonlFile exampleLib brokenWorld exampleSource = Inr [exampleMessage None]"
  by (simp add: parseJsonlFile_def brokenWorld_def ex_readLines)
    (simp only: brokenLog_lines brokenLog_messages)

lemma broken_source: "files brokenWorld exampleSource = Some \<lparr>content = brokenLog, mtimeMs = 5\<rparr>"
  by (simp add: brokenWorld_def exampleWorld_def)

lemma broken_faults: "faults brokenWorld op q = None"
  by (simp add: brokenWorld_def ex_faults)

lemma broken_metadata:
  "\<exists>md. generateMetadata exampleLib brokenWorld [exampleMessage None] exampleSource
          (parseClaudePath exampleSource) = Inr md"
  by (simp add: generateMetadata_built example_present) (simp add: exampleMessage_def)

text \<open>
  Claim C1 at a log that is not well-formed UTF-8: the bytes \<^verbatim>\<open>7B 7D 0A FF 0A\<close>, a line
  \<^verbatim>\<open>{}\<close> followed by a line that holds the single byte \<^verbatim>\<open>FF\<close>. The sync copies
  (one line parses, the action is \<open>Updated\<close>), and the destination holds seven bytes, with
  \<^verbatim>\<open>EF BF BD\<close> (U+FFFD) in place of \<^verbatim>\<open>FF\<close>: the copy is not the source. The
  source is read into a string with the encoding \<^verbatim>\<open>utf-8\<close> and the string is written
  back.
\<close>

theorem copy_replaces_malformed_bytes:
  "action (snd (syncSingleFile exampleLib brokenWorld exampleSource)) = Updated
   \<and> success (snd (syncSingleFile exampleLib brokenWorld exampleSource))
   \<and> map_option content (files brokenWorld exampleSource) = Some [0x7B, 0x7D, 0x0A, 0xFF, 0x0A]
   \<and> map_option content
         (files (fst (syncSingleFile exampleLib brokenWorld exampleSource)) (jsonlFile exampleTargets))
       = Some [0x7B, 0x7D, 0x0A, 0xEF, 0xBF, 0xBD, 0x0A]"
proof -
  have "snd (syncSingleFile exampleLib brokenWorld exampleSource)
          = copiedResult (parseClaudePath exampleSource) exampleTargets
      \<and> files (fst (syncSingleFile exampleLib brokenWorld exampleSource)) (jsonlFile exampleTargets)
          = Some \<lparr>content = utf8_encode (utf8_decode brokenLog), mtimeMs = clock brokenWorld\<rparr>"
    using sync_copies [OF example_idle'(4) example_gt'(4) broken_shouldSync broken_parse _
        broken_faults broken_source] broken_metadata example_distinct(3)
    by auto
  moreover have "jsonlFile exampleTargets \<noteq> []" by (simp add: exampleTargets_def js_def)
  ultimately show ?thesis
    by (simp add: copiedResult_def broken_source brokenLog_written) (simp add: brokenLog_def)
qed

section \<open>Properties of the debounced scheduling\<close>

lemma syncsOf_fireTimer:
  "syncsOf p (fireTimer tm s) = syncsOf p s @ (if timer_path tm = p then [due tm] else [])"
  by (simp add: syncsOf_def fireTimer_def)

lemma syncsOf_fold_fire:
  "syncsOf p (fold fireTimer xs s)
     = syncsOf p s @ map due (filter (\<lambda>tm. timer_path tm = p) xs)"
  by (induction xs arbitrary: s) (simp_all add: syncsOf_fireTimer)

lemma timers_fold_fire [simp]: "timers (fold fireTimer xs s) = timers s"
  by (induction xs arbitrary: s) (simp_all add: fireTimer_def)

lemma next_fold_fire [simp]: "nextTimeoutId (fold fireTimer xs s) = nextTimeoutId s"
  by (induction xs arbitrary: s) (simp_all add: fireTimer_def)

lemma pending_fold_fire:
  "pendingSyncs (fold fireTimer xs s) q
     = (if q \<in> timer_path ` set xs then None else pendingSyncs s q)"
  by (induction xs arbitrary: s) (auto simp: fireTimer_def)

lemma timers_advance: "timers (advance t s) = filter (\<lambda>tm. \<not> due tm \<le> t) (timers s)"
  by (simp add: advance_def)

lemma now_advance [simp]: "now (advance t s) = t"
  by (simp add: advance_def)

lemma next_advance [simp]: "nextTimeoutId (advance t s) = nextTimeoutId s"
  by (simp add: advance_def)

lemma filter_swap: "filter P (filter Q xs) = filter Q (filter P xs)"
  by (induction xs) auto

lemma armed_advance: "armed p (advance t s) = filter (\<lambda>tm. \<not> due tm \<le> t) (armed p s)"
  unfolding armed_def timers_advance by (rule filter_swap)

lemma syncsOf_advance:
  "syncsOf p (advance t s)
     = syncsOf p s @ map due (sort_key due (filter (\<lambda>tm. due tm \<le> t) (armed p s)))"
proof -
  have "filter (\<lambda>tm. timer_path tm = p) (sort_key due (filter (\<lambda>tm. due tm \<le> t) (timers s)))
        = sort_key due (filter (\<lambda>tm. timer_path tm = p) (filter (\<lambda>tm. due tm \<le> t) (timers s)))"
    by (rule filter_sort)
  also have "\<dots> = sort_key due (filter (\<lambda>tm. due tm \<le> t) (armed p s))"
    unfolding armed_def by (simp only: filter_swap [of "\<lambda>tm. timer_path tm = p"])
  finally have "filter (\<lambda>tm. timer_path tm = p) (sort_key due (filter (\<lambda>tm. due tm \<le> t) (timers s)))
        = sort_key due (filter (\<lambda>tm. due tm \<le> t) (armed p s))" .
  moreover have "syncsOf p (advance t s) = syncsOf p (fold fireTimer (sort_key due (filter (\<lambda>tm. due tm \<le> t) (timers s)))
        (s\<lparr>timers := filter (\<lambda>tm. \<not> due tm \<le> t) (timers s)\<rparr>))"
    by (simp add: advance_def syncsOf_def)
  ultimately show ?thesis
    by (simp add: syncsOf_fold_fire) (simp add: syncsOf_def)
qed

lemma pending_advance:
  "pendingSyncs (advance t s) q
     = (if \<exists>tm \<in> set (timers s). due tm \<le> t \<and> timer_path tm = q then None else pendingSyncs s q)"
  by (auto simp: advance_def pending_fold_fire)

lemma wf_ids: "wellFormed s \<Longrightarrow> inj_on timer_id (set (timers s))"
  by (simp add: wellFormed_def distinct_map)

lemma wf_named:
  "wellFormed s \<Longrightarrow> tm \<in> set (timers s) \<Longrightarrow>
   \<exists>z. pendingSyncs s (timer_path tm) = Some z \<and> timeoutId z = timer_id tm"
  unfolding wellFormed_def by (metis (no_types, lifting) map_option_eq_Some)

lemma wf_fresh: "wellFormed s \<Longrightarrow> tm \<in> set (timers s) \<Longrightarrow> timer_id tm < nextTimeoutId s"
  by (simp add: wellFormed_def)

lemma wf_live:
  "wellFormed s \<Longrightarrow> pendingSyncs s q = Some ex \<Longrightarrow>
   \<exists>tm \<in> set (timers s). timer_id tm = timeoutId ex \<and> timer_path tm = q"
  by (simp add: wellFormed_def)

lemma wellFormed_unique:
  assumes "wellFormed s" "tm \<in> set (timers s)" "tm' \<in> set (timers s)"
    "timer_path tm = timer_path tm'"
  shows "tm = tm'"
proof -
  obtain z where z: "pendingSyncs s (timer_path tm) = Some z" "timeoutId z = timer_id tm"
    using wf_named [OF assms(1,2)] by blast
  obtain z' where z': "pendingSyncs s (timer_path tm') = Some z'" "timeoutId z' = timer_id tm'"
    using wf_named [OF assms(1,3)] by blast
  have "timer_id tm = timer_id tm'" using z z' assms(4) by simp
  then show ?thesis using wf_ids [OF assms(1)] assms(2,3) by (auto dest: inj_onD)
qed

lemma wellFormed_advance:
  assumes "wellFormed s"
  shows "wellFormed (advance t s)"
proof -
  have 1: "distinct (map timer_id (timers (advance t s)))"
    using assms by (simp add: wellFormed_def timers_advance distinct_map_filter)
  have keep: "pendingSyncs (advance t s) (timer_path tm) = pendingSyncs s (timer_path tm)"
    if in_s: "tm \<in> set (timers s)" and late: "\<not> due tm \<le> t" for tm
  proof -
    have ne: "\<not> (\<exists>tm' \<in> set (timers s). due tm' \<le> t \<and> timer_path tm' = timer_path tm)"
      using wellFormed_unique [OF assms _ in_s] late by blast
    show ?thesis by (simp only: pending_advance if_not_P [OF ne])
  qed
  have 2: "\<forall>tm \<in> set (timers (advance t s)). timer_id tm < nextTimeoutId (advance t s)
           \<and> map_option timeoutId (pendingSyncs (advance t s) (timer_path tm)) = Some (timer_id tm)"
  proof
    fix tm assume "tm \<in> set (timers (advance t s))"
    then have in_s: "tm \<in> set (timers s)" and late: "\<not> due tm \<le> t"
      by (simp_all add: timers_advance)
    show "timer_id tm < nextTimeoutId (advance t s)
        \<and> map_option timeoutId (pendingSyncs (advance t s) (timer_path tm)) = Some (timer_id tm)"
      using wf_fresh [OF assms in_s] wf_named [OF assms in_s] keep [OF in_s late] by auto
  qed
  have 3: "\<forall>q ex. pendingSyncs (advance t s) q = Some ex \<longrightarrow>
           (\<exists>tm \<in> set (timers (advance t s)). timer_id tm = timeoutId ex \<and> timer_path tm = q)"
  proof (intro allI impI)
    fix q ex assume a: "pendingSyncs (advance t s) q = Some ex"
    then have nodue: "\<not> (\<exists>tm \<in> set (timers s). due tm \<le> t \<and> timer_path tm = q)"
      and old: "pendingSyncs s q = Some ex"
      by (auto simp: pending_advance split: if_splits)
    from old obtain tm where tm: "tm \<in> set (timers s)" "timer_id tm = timeoutId ex" "timer_path tm = q"
      using wf_live [OF assms] by blast
    then have "\<not> due tm \<le> t" using nodue by blast
    then show "\<exists>tm \<in> set (timers (advance t s)). timer_id tm = timeoutId ex \<and> timer_path tm = q"
      using tm by (auto simp: timers_advance)
  qed
  show ?thesis using 1 2 3 by (simp add: wellFormed_def)
qed

text \<open>Scheduling.\<close>

lemma schedule_timers:
  "timers (scheduleSyncWithDebounce p s)
     = (case pendingSyncs s p of
          None \<Rightarrow> timers s
        | Some ex \<Rightarrow> filter (\<lambda>tm. timer_id tm \<noteq> timeoutId ex) (timers s))
       @ [\<lparr>timer_id = nextTimeoutId s, due = now s + 1000, timer_path = p\<rparr>]"
  by (simp add: scheduleSyncWithDebounce_def setTimeout_def clearTimeout_def Let_def
      split: option.splits)

lemma schedule_pending:
  "pendingSyncs (scheduleSyncWithDebounce p s)
     = (pendingSyncs s)(p \<mapsto> \<lparr>filePath = p, scheduledTime = now s + 1000, timeoutId = nextTimeoutId s\<rparr>)"
  by (simp add: scheduleSyncWithDebounce_def setTimeout_def clearTimeout_def Let_def
      split: option.splits)

lemma schedule_next: "nextTimeoutId (scheduleSyncWithDebounce p s) = Suc (nextTimeoutId s)"
  by (simp add: scheduleSyncWithDebounce_def setTimeout_def clearTimeout_def Let_def
      split: option.splits)

lemma schedule_executed: "executed (scheduleSyncWithDebounce p s) = executed s"
  by (simp add: scheduleSyncWithDebounce_def setTimeout_def clearTimeout_def Let_def
      split: option.splits)

lemma schedule_now: "now (scheduleSyncWithDebounce p s) = now s"
  by (simp add: scheduleSyncWithDebounce_def setTimeout_def clearTimeout_def Let_def
      split: option.splits)

text \<open>Scheduling cancels the live timer of the path, if any, and leaves the others.\<close>

lemma schedule_cancels:
  assumes "wellFormed s"
  shows "timers (scheduleSyncWithDebounce p s)
     = filter (\<lambda>tm. timer_path tm \<noteq> p) (timers s)
       @ [\<lparr>timer_id = nextTimeoutId s, due = now s + 1000, timer_path = p\<rparr>]"
proof -
  have "(case pendingSyncs s p of
          None \<Rightarrow> timers s
        | Some ex \<Rightarrow> filter (\<lambda>tm. timer_id tm \<noteq> timeoutId ex) (timers s))
       = filter (\<lambda>tm. timer_path tm \<noteq> p) (timers s)"
  proof (cases "pendingSyncs s p")
    case None
    then have "\<forall>tm \<in> set (timers s). timer_path tm \<noteq> p"
      using wf_named [OF assms] by fastforce
    then show ?thesis using None by simp
  next
    case (Some ex)
    then obtain tm0 where tm0: "tm0 \<in> set (timers s)" "timer_id tm0 = timeoutId ex" "timer_path tm0 = p"
      using wf_live [OF assms] by blast
    have inj: "inj_on timer_id (set (timers s))"
      using assms by (rule wf_ids)
    have "\<forall>tm \<in> set (timers s). (timer_id tm \<noteq> timeoutId ex) = (timer_path tm \<noteq> p)"
    proof
      fix tm assume m: "tm \<in> set (timers s)"
      show "(timer_id tm \<noteq> timeoutId ex) = (timer_path tm \<noteq> p)"
      proof (cases "timer_path tm = p")
        case True
        then show ?thesis using wf_named [OF assms m] Some by auto
      next
        case False
        have "timer_id tm \<noteq> timeoutId ex"
        proof
          assume "timer_id tm = timeoutId ex"
          then have "timer_id tm = timer_id tm0" using tm0(2) by simp
          from inj_onD [OF inj this m tm0(1)] show False using False tm0(3) by simp
        qed
        then show ?thesis using False by simp
      qed
    qed
    then show ?thesis using Some by (simp cong: filter_cong)
  qed
  then show ?thesis by (simp add: schedule_timers)
qed

lemma armed_schedule_same:
  "wellFormed s \<Longrightarrow>
   armed p (scheduleSyncWithDebounce p s)
     = [\<lparr>timer_id = nextTimeoutId s, due = now s + 1000, timer_path = p\<rparr>]"
  by (simp add: armed_def schedule_cancels)

lemma filter_path_other:
  "q \<noteq> p \<Longrightarrow>
   filter (\<lambda>tm. timer_path tm \<noteq> q \<and> timer_path tm = p) xs
     = filter (\<lambda>tm. timer_path tm = p) xs"
  by (induction xs) auto

lemma armed_schedule_other:
  "wellFormed s \<Longrightarrow> q \<noteq> p \<Longrightarrow> armed p (scheduleSyncWithDebounce q s) = armed p s"
  by (simp add: armed_def schedule_cancels filter_path_other)

lemma syncsOf_schedule: "syncsOf p (scheduleSyncWithDebounce q s) = syncsOf p s"
  by (simp add: syncsOf_def schedule_executed)

lemma wellFormed_schedule:
  assumes "wellFormed s"
  shows "wellFormed (scheduleSyncWithDebounce p s)"
proof -
  let ?s' = "scheduleSyncWithDebounce p s"
  let ?new = "\<lparr>timer_id = nextTimeoutId s, due = now s + 1000, timer_path = p\<rparr>"
  have t: "timers ?s' = filter (\<lambda>tm. timer_path tm \<noteq> p) (timers s) @ [?new]"
    using assms by (rule schedule_cancels)
  have old: "\<forall>tm \<in> set (timers s). timer_id tm < nextTimeoutId s"
    using assms by (simp add: wellFormed_def)
  have d: "distinct (map timer_id (timers s))" using assms by (simp add: wellFormed_def)
  have 1: "distinct (map timer_id (timers ?s'))"
    using d old by (auto simp: t distinct_map_filter)
  have 2: "\<forall>tm \<in> set (timers ?s'). timer_id tm < nextTimeoutId ?s'
           \<and> map_option timeoutId (pendingSyncs ?s' (timer_path tm)) = Some (timer_id tm)"
  proof
    fix tm assume "tm \<in> set (timers ?s')"
    then have "tm = ?new \<or> (tm \<in> set (timers s) \<and> timer_path tm \<noteq> p)" by (auto simp: t)
    then show "timer_id tm < nextTimeoutId ?s'
           \<and> map_option timeoutId (pendingSyncs ?s' (timer_path tm)) = Some (timer_id tm)"
    proof
      assume "tm = ?new" then show ?thesis by (simp add: schedule_next schedule_pending)
    next
      assume a: "tm \<in> set (timers s) \<and> timer_path tm \<noteq> p"
      then show ?thesis using wf_fresh [OF assms, of tm] wf_named [OF assms, of tm]
        by (auto simp: schedule_next schedule_pending)
    qed
  qed
  have 3: "\<forall>q ex. pendingSyncs ?s' q = Some ex \<longrightarrow>
           (\<exists>tm \<in> set (timers ?s'). timer_id tm = timeoutId ex \<and> timer_path tm = q)"
  proof (intro allI impI)
    fix q ex assume a: "pendingSyncs ?s' q = Some ex"
    show "\<exists>tm \<in> set (timers ?s'). timer_id tm = timeoutId ex \<and> timer_path tm = q"
    proof (cases "q = p")
      case True
      then have "timeoutId ex = nextTimeoutId s" using a by (auto simp: schedule_pending)
      then show ?thesis using True by (simp add: t)
    next
      case False
      then have "pendingSyncs s q = Some ex" using a by (simp add: schedule_pending)
      then obtain tm where "tm \<in> set (timers s)" "timer_id tm = timeoutId ex" "timer_path tm = q"
        using wf_live [OF assms] by blast
      then show ?thesis using False by (auto simp: t)
    qed
  qed
  show ?thesis using 1 2 3 by (simp add: wellFormed_def)
qed

lemma wellFormed_fsEvent: "wellFormed s \<Longrightarrow> wellFormed (fsEvent s ev)"
  by (simp add: fsEvent_def wellFormed_schedule wellFormed_advance)

lemma wellFormed_initial: "wellFormed (initialScheduler t)"
  by (simp add: wellFormed_def initialScheduler_def)

text \<open>An event for \<open>p\<close> leaves exactly one live timer for \<open>p\<close>, due one second later.\<close>

lemma armed_fsEvent_same:
  "wellFormed s \<Longrightarrow>
   armed p (fsEvent s (t, p)) = [\<lparr>timer_id = nextTimeoutId s, due = t + 1000, timer_path = p\<rparr>]"
  by (simp add: fsEvent_def armed_schedule_same wellFormed_advance)

text \<open>The state of \<open>p\<close>'s timer after the latest event for \<open>p\<close>.\<close>

lemma awaiting_same_timers: "armed p s' = armed p s \<Longrightarrow> awaiting p latest s' = awaiting p latest s"
  by (simp add: awaiting_def split: option.splits)

lemma awaiting_not_due:
  assumes "awaiting p latest s"
    and "case latest of None \<Rightarrow> True | Some l \<Rightarrow> l \<le> t \<and> t < l + 1000"
  shows "filter (\<lambda>tm. due tm \<le> t) (armed p s) = []
       \<and> filter (\<lambda>tm. \<not> due tm \<le> t) (armed p s) = armed p s"
proof (cases latest)
  case None
  then show ?thesis using assms(1) by (simp add: awaiting_def)
next
  case (Some l)
  then obtain i where "armed p s = [\<lparr>timer_id = i, due = l + 1000, timer_path = p\<rparr>]"
    using assms(1) by (auto simp: awaiting_def)
  moreover have "\<not> l + 1000 \<le> t" using assms(2) Some by simp
  ultimately show ?thesis by simp
qed

lemma step_invariant:
  assumes wf: "wellFormed s"
    and arm: "awaiting p latest s"
    and win: "case latest of None \<Rightarrow> True | Some l \<Rightarrow> l \<le> fst ev \<and> fst ev < l + 1000"
  shows "syncsOf p (fsEvent s ev) = syncsOf p s
       \<and> awaiting p (if snd ev = p then Some (fst ev) else latest) (fsEvent s ev)"
proof -
  note nd = awaiting_not_due [OF arm win]
  have a: "armed p (advance (fst ev) s) = armed p s"
    by (simp add: armed_advance nd [THEN conjunct2])
  have e: "syncsOf p (advance (fst ev) s) = syncsOf p s"
    by (simp add: syncsOf_advance nd [THEN conjunct1])
  have wf': "wellFormed (advance (fst ev) s)" using wf by (rule wellFormed_advance)
  show ?thesis
  proof (cases "snd ev = p")
    case True
    have "armed p (fsEvent s ev)
           = [\<lparr>timer_id = nextTimeoutId s, due = fst ev + 1000, timer_path = p\<rparr>]"
      using True wf' by (simp add: fsEvent_def armed_schedule_same)
    then have "awaiting p (Some (fst ev)) (fsEvent s ev)" by (simp add: awaiting_def)
    then show ?thesis using True e by (simp add: fsEvent_def syncsOf_schedule)
  next
    case False
    have eq: "armed p (fsEvent s ev) = armed p s"
      using False wf' a by (simp add: fsEvent_def armed_schedule_other)
    have "awaiting p latest (fsEvent s ev)"
      using arm awaiting_same_timers [OF eq, of latest] by simp
    then show ?thesis using False e by (simp add: fsEvent_def syncsOf_schedule)
  qed
qed

lemma burst_invariant:
  assumes "wellFormed s" and "awaiting p latest s" and "withinWindow p latest evs"
  shows "wellFormed (runWatch evs s) \<and> syncsOf p (runWatch evs s) = syncsOf p s
       \<and> awaiting p (latestEvent p latest evs) (runWatch evs s)"
  using assms
proof (induction evs arbitrary: s latest)
  case Nil
  then show ?case by (simp add: runWatch_def)
next
  case (Cons ev evs)
  let ?latest' = "if snd ev = p then Some (fst ev) else latest"
  have win: "case latest of None \<Rightarrow> True | Some l \<Rightarrow> l \<le> fst ev \<and> fst ev < l + 1000"
    and rest: "withinWindow p ?latest' evs"
    using Cons.prems(3) by simp_all
  note st = step_invariant [OF Cons.prems(1) Cons.prems(2) win]
  have wf': "wellFormed (fsEvent s ev)" using Cons.prems(1) by (rule wellFormed_fsEvent)
  have ih: "wellFormed (runWatch evs (fsEvent s ev))
       \<and> syncsOf p (runWatch evs (fsEvent s ev)) = syncsOf p (fsEvent s ev)
       \<and> awaiting p (latestEvent p ?latest' evs) (runWatch evs (fsEvent s ev))"
    using Cons.IH [OF wf' _ rest] st by blast
  have r: "runWatch (ev # evs) s = runWatch evs (fsEvent s ev)" by (simp add: runWatch_def)
  show ?case using ih st by (simp add: r)
qed

text \<open>
  Claim C6. An event for \<open>p\<close> leaves exactly one live timer for \<open>p\<close>, due one second
  after the event: the timer of an earlier event is cancelled. So when every event of a
  burst arrives within the debounce window of the latest event for \<open>p\<close> before it, no
  sync of \<open>p\<close> is executed during the burst, and exactly one is executed afterwards, at
  the time of the last event for \<open>p\<close> plus one second. Events for other paths may be
  mixed in; their timers are not touched.
\<close>

theorem debounce_burst:
  assumes "wellFormed s" and "armed p s = []" and "withinWindow p None evs"
    and "latestEvent p None evs = Some tn" and "tn + 1000 \<le> T"
  shows "syncsOf p (advance T (runWatch evs s)) = syncsOf p s @ [tn + 1000]
       \<and> armed p (advance T (runWatch evs s)) = []
       \<and> (\<forall>t. armed p (fsEvent s (t, p))
                = [\<lparr>timer_id = nextTimeoutId s, due = t + 1000, timer_path = p\<rparr>])"
proof -
  have "awaiting p None s" using assms(2) by (simp add: awaiting_def)
  from burst_invariant [OF assms(1) this assms(3)]
  have e: "syncsOf p (runWatch evs s) = syncsOf p s"
    and "awaiting p (Some tn) (runWatch evs s)"
    using assms(4) by simp_all
  then obtain i where a: "armed p (runWatch evs s) = [\<lparr>timer_id = i, due = tn + 1000, timer_path = p\<rparr>]"
    by (auto simp: awaiting_def)
  show ?thesis using e a assms(1,5)
    by (simp add: syncsOf_advance armed_advance armed_fsEvent_same)
qed


theorem debounce_burst_witness:
  "wellFormed (initialScheduler 0)
   \<and> armed (js ''a'') (initialScheduler 0) = []
   \<and> withinWindow (js ''a'') None burstExample
   \<and> latestEvent (js ''a'') None burstExample = Some 1300
   \<and> syncsOf (js ''a'') (advance 2300 (runWatch burstExample (initialScheduler 0))) = [2300]
   \<and> armed (js ''a'') (advance 2300 (runWatch burstExample (initialScheduler 0))) = []"
proof -
  have ne: "js ''b'' \<noteq> js ''a''" by (simp add: js_def)
  have 1: "wellFormed (initialScheduler 0)" by (rule wellFormed_initial)
  have 2: "armed (js ''a'') (initialScheduler 0) = []"
    by (simp add: armed_def initialScheduler_def)
  have 3: "withinWindow (js ''a'') None burstExample"
    using ne by (simp add: burstExample_def)
  have 4: "latestEvent (js ''a'') None burstExample = Some 1300"
    using ne by (simp add: burstExample_def)
  have 5: "(1300::number) + 1000 \<le> 2300" by simp
  have 6: "syncsOf (js ''a'') (initialScheduler 0) = []"
    by (simp add: syncsOf_def initialScheduler_def)
  show ?thesis using debounce_burst [OF 1 2 3 4 5] 1 2 3 4 6 by simp
qed


end
